theory Spec2Isabelle
  imports Main "HOL-Library.Word" "HOL-Library.Multiset"
begin

unbundle bit_operations_syntax

section \<open>IPv4 fragment reassembly (datapath/linux/compat/ip_fragment.c)\<close>

text \<open>
  A shallow embedding of the reassembly queue of \<^verbatim>\<open>ip_fragment.c\<close>: the too-far
  heuristic (\<^verbatim>\<open>ip_frag_too_far\<close>), the reinitialisation (\<^verbatim>\<open>ip_frag_reinit\<close>), the
  insertion of one fragment (\<^verbatim>\<open>ip_frag_queue\<close>) and the gluing (\<^verbatim>\<open>ip_frag_reasm\<close>).

  The singly linked chain \<^verbatim>\<open>qp->q.fragments\<close> is a list of buffers in chain order;
  \<^verbatim>\<open>qp->q.fragments_tail\<close> is the last element of that list (the code keeps it so: it
  is set whenever the new buffer is linked with no successor, and a deleted successor
  that was the tail leaves \<^verbatim>\<open>next == NULL\<close>). C \<^verbatim>\<open>int\<close> values are HOL integers: the
  offset is at most 8 * 0x1FFF, a buffer is shorter than 65536 bytes, so no C addition
  here overflows. Memory accounting (\<^verbatim>\<open>truesize\<close>), time stamps, the route cache and
  the header checksum are left out: no function modelled here branches on them.
\<close>

subsection \<open>Data\<close>

type_synonym byte = "8 word"
type_synonym u32 = "32 word"

datatype errno = ENOENT | EINVAL | ENOMEM | ETIMEDOUT | E2BIG | EINPROGRESS | OOPS

datatype frag_flag =
  INET_FRAG_FIRST_IN | INET_FRAG_LAST_IN | INET_FRAG_COMPLETE | INET_FRAG_EVICTED

datatype ipskb_flag = IPSKB_FRAG_COMPLETE | IPSKB_FRAG_PMTU

datatype csum = CHECKSUM_NONE | CHECKSUM_UNNECESSARY | CHECKSUM_COMPLETE | CHECKSUM_PARTIAL

text \<open>
  A buffer. \<open>data\<close> holds the bytes after the IP header, so that
  \<^verbatim>\<open>skb->len - skb_network_offset(skb) - ihl\<close> before the header is pulled, and
  \<^verbatim>\<open>skb->len\<close> after it, is the length of \<open>data\<close>. \<open>frag_off\<close> is the header field
  in host order (\<^verbatim>\<open>ntohs(ip_hdr(skb)->frag_off)\<close>), \<open>ihl\<close> is \<^verbatim>\<open>ip_hdrlen(skb)\<close> in
  bytes, \<open>dev\<close> is the interface index of \<^verbatim>\<open>skb->dev\<close> (\<open>None\<close> for \<^verbatim>\<open>NULL\<close>),
  \<open>cb_offset\<close> is \<^verbatim>\<open>FRAG_CB(skb)->offset\<close>.
\<close>

record sk_buff =
  ihl :: nat
  tos :: "8 word"
  tot_len :: nat
  frag_off :: "16 word"
  data :: "byte list"
  cb_offset :: int
  dev :: "int option"
  ip_summed :: csum
  ipcb_flags :: "ipskb_flag set"
  frag_max_size :: nat
  has_frag_list :: bool

text \<open>
  \<^verbatim>\<open>struct ipq\<close> with the fields of its \<^verbatim>\<open>struct inet_frag_queue q\<close> that the four
  functions use. \<open>peer\<close> says whether \<^verbatim>\<open>qp->peer\<close> is non-NULL; \<open>max_size\<close> and
  \<open>max_df_size\<close> are \<^verbatim>\<open>u16\<close>.
\<close>

record ipq =
  flags :: "frag_flag set"
  len :: int
  meat :: int
  fragments :: "sk_buff list"
  max_size :: nat
  ecn :: "8 word"
  max_df_size :: nat
  iif :: int
  rid :: u32
  peer :: bool

text \<open>
  What the functions touch outside the queue: the counter \<^verbatim>\<open>peer->rid\<close> of the queue's
  peer, and the two counters \<^verbatim>\<open>IPSTATS_MIB_REASMFAILS\<close> and \<^verbatim>\<open>IPSTATS_MIB_REASMOKS\<close>.
\<close>

record net =
  peer_rid :: u32
  reasmfails :: nat
  reasmoks :: nat

text \<open>
  Configuration: \<^verbatim>\<open>sysctl_ipfrag_max_dist\<close> (64 in this file, read as
  \<^verbatim>\<open>unsigned int\<close>) and the table \<^verbatim>\<open>ip_frag_ecn_table\<close>, which the kernel declares
  outside this file and is taken as a parameter.
\<close>

record config =
  sysctl_ipfrag_max_dist :: u32
  ip_frag_ecn_table :: "8 word \<Rightarrow> 8 word"

text \<open>
  What one call meets in its environment: how far other queues of the same peer have
  advanced \<^verbatim>\<open>peer->rid\<close> since the previous call (used by \<open>ip_defrag_list\<close> only),
  whether \<^verbatim>\<open>mod_timer\<close> finds the timer pending, and whether each allocating helper
  succeeds.
\<close>

record env =
  rid_others :: u32
  timer_pending :: bool
  pull_hdr_ok :: bool
  trim_ok :: bool
  pull_head_ok :: bool
  pull_next_ok :: bool
  clone_ok :: bool
  unclone_ok :: bool
  alloc_ok :: bool

text \<open>
  The result of \<^verbatim>\<open>ip_frag_queue\<close>: \<open>Inl e\<close> for the return value \<open>-e\<close>, \<open>Inr d\<close> for
  the return value 0 with the buffer now holding the datagram \<open>d\<close>; whether the
  \<^verbatim>\<open>err:\<close> label ran \<^verbatim>\<open>kfree_skb(skb)\<close>; and the state left behind.
\<close>

record frag_ret =
  ret :: "errno + sk_buff"
  skb_freed :: bool
  net_out :: net
  qp_out :: ipq

subsection \<open>Header fields\<close>

definition IP_DF :: "16 word" where "IP_DF = 0x4000"
definition IP_MF :: "16 word" where "IP_MF = 0x2000"
definition IP_OFFSET :: "16 word" where "IP_OFFSET = 0x1FFF"
definition INET_ECN_MASK :: "8 word" where "INET_ECN_MASK = 3"

definition ip4_frag_ecn :: "8 word \<Rightarrow> 8 word" where
  "ip4_frag_ecn t = push_bit (unat (t AND INET_ECN_MASK)) 1"

definition skb_len :: "sk_buff \<Rightarrow> int" where
  "skb_len skb = int (length (data skb))"

text \<open>\<^verbatim>\<open>offset = ntohs(frag_off) & IP_OFFSET; offset <<= 3\<close>\<close>

definition frag_offset :: "sk_buff \<Rightarrow> int" where
  "frag_offset skb = 8 * uint (frag_off skb AND IP_OFFSET)"

definition frag_mf :: "sk_buff \<Rightarrow> bool" where
  "frag_mf skb = (frag_off skb AND IP_MF \<noteq> 0)"

definition frag_df :: "sk_buff \<Rightarrow> bool" where
  "frag_df skb = (frag_off skb AND IP_DF \<noteq> 0)"

definition summed_none :: "sk_buff \<Rightarrow> sk_buff" where
  "summed_none skb =
     (if ip_summed skb \<noteq> CHECKSUM_UNNECESSARY then skb\<lparr>ip_summed := CHECKSUM_NONE\<rparr> else skb)"

text \<open>
  \<^verbatim>\<open>pskb_pull(skb, n)\<close> where it succeeds: the first \<open>n\<close> bytes leave the buffer.
\<close>

definition pskb_pull :: "sk_buff \<Rightarrow> int \<Rightarrow> sk_buff" where
  "pskb_pull skb n = skb\<lparr>data := drop (nat n) (data skb)\<rparr>"

text \<open>
  \<^verbatim>\<open>pskb_trim_rcsum(skb, n)\<close>: nothing to do when the buffer is no longer than \<open>n\<close>;
  otherwise a complete checksum is dropped and the buffer cut, which can fail.
\<close>

definition pskb_trim_rcsum :: "env \<Rightarrow> sk_buff \<Rightarrow> int \<Rightarrow> sk_buff option" where
  "pskb_trim_rcsum orc skb n =
     (if skb_len skb \<le> n then Some skb
      else if trim_ok orc then
        Some (skb\<lparr>data := take (nat n) (data skb),
                  ip_summed := (if ip_summed skb = CHECKSUM_COMPLETE then CHECKSUM_NONE
                                else ip_summed skb)\<rparr>)
      else None)"

subsection \<open>Queue creation and destruction\<close>

text \<open>
  \<^verbatim>\<open>ip4_frag_init\<close> on the zero-filled queue that the kernel's \<^verbatim>\<open>inet_frag_alloc\<close>
  hands it. \<open>getpeer_ok\<close> says whether \<^verbatim>\<open>inet_getpeer_v4\<close> returned a peer.
\<close>

definition ip4_frag_init :: "config \<Rightarrow> bool \<Rightarrow> sk_buff \<Rightarrow> ipq" where
  "ip4_frag_init cfg getpeer_ok skb =
     \<lparr>flags = {}, len = 0, meat = 0, fragments = [], max_size = 0,
      ecn = ip4_frag_ecn (tos skb), max_df_size = 0, iif = 0, rid = 0,
      peer = (sysctl_ipfrag_max_dist cfg \<noteq> 0 \<and> getpeer_ok)\<rparr>"

text \<open>
  \<^verbatim>\<open>ipq_kill\<close> is the kernel's \<^verbatim>\<open>inet_frag_kill\<close>: the timer is deleted, the queue leaves
  the hash table and \<^verbatim>\<open>INET_FRAG_COMPLETE\<close> is set. Only the flag is state of this model.
\<close>

definition ipq_kill :: "ipq \<Rightarrow> ipq" where
  "ipq_kill qp = qp\<lparr>flags := insert INET_FRAG_COMPLETE (flags qp)\<rparr>"

subsection \<open>The too-far heuristic\<close>

definition ip_frag_too_far :: "config \<Rightarrow> net \<Rightarrow> ipq \<Rightarrow> bool \<times> net \<times> ipq" where
  "ip_frag_too_far cfg n qp =
     (let mx = sysctl_ipfrag_max_dist cfg in
      if \<not> peer qp \<or> mx = 0 then (False, n, qp)
      else
        let start = rid qp;
            e = peer_rid n + 1;
            rc = (fragments qp \<noteq> [] \<and> e - start > mx)
        in (rc,
            n\<lparr>peer_rid := e, reasmfails := (if rc then reasmfails n + 1 else reasmfails n)\<rparr>,
            qp\<lparr>rid := e\<rparr>))"

text \<open>
  \<^verbatim>\<open>ip_frag_reinit\<close>: \<open>Some ETIMEDOUT\<close> when \<^verbatim>\<open>mod_timer\<close> found the timer inactive,
  else the fragments are freed and the fields reset.
\<close>

definition reinit_fields :: "ipq \<Rightarrow> ipq" where
  "reinit_fields qp =
     qp\<lparr>flags := {}, len := 0, meat := 0, fragments := [], iif := 0, ecn := 0\<rparr>"

definition ip_frag_reinit :: "env \<Rightarrow> ipq \<Rightarrow> errno option \<times> ipq" where
  "ip_frag_reinit orc qp =
     (if \<not> timer_pending orc then (Some ETIMEDOUT, qp) else (None, reinit_fields qp))"

subsection \<open>Gluing\<close>

text \<open>
  The loop of \<^verbatim>\<open>ip_frag_reasm\<close> over the fragments after the head, for
  \<^verbatim>\<open>head->ip_summed\<close>.
\<close>

fun reasm_summed :: "csum \<Rightarrow> sk_buff list \<Rightarrow> csum" where
  "reasm_summed s [] = s"
| "reasm_summed s (fp # fps) =
     reasm_summed (if s \<noteq> ip_summed fp then CHECKSUM_NONE else s) fps"

text \<open>
  Lines 691 to 729 of \<^verbatim>\<open>ip_frag_reasm\<close>: the head buffer takes the bytes of all
  fragments in chain order and the device of the last arrival; its header gets the new
  total length, the ECN bits and the decision on \<^verbatim>\<open>IP_DF\<close>.
\<close>

definition reasm_datagram ::
  "config \<Rightarrow> ipq \<Rightarrow> sk_buff \<Rightarrow> sk_buff list \<Rightarrow> int option \<Rightarrow> sk_buff" where
  "reasm_datagram cfg qp head rest dv =
     head\<lparr>data := concat (map data (head # rest)),
          ip_summed := reasm_summed (ip_summed head) rest,
          dev := dv,
          frag_max_size := max (max_df_size qp) (max_size qp),
          tot_len := nat (int (ihl head) + len qp) mod 65536,
          tos := tos head OR ip_frag_ecn_table cfg (ecn qp),
          ipcb_flags := (if max_df_size qp = max_size qp
                         then insert IPSKB_FRAG_PMTU (ipcb_flags head) else ipcb_flags head),
          frag_off := (if max_df_size qp = max_size qp then IP_DF else 0),
          has_frag_list := (has_frag_list head \<or> rest \<noteq> [])\<rparr>"

text \<open>\<^verbatim>\<open>out_fail:\<close> counts a reassembly failure.\<close>

definition reasm_fail :: "net \<Rightarrow> net" where
  "reasm_fail n = n\<lparr>reasmfails := reasmfails n + 1\<rparr>"

text \<open>
  \<^verbatim>\<open>ip_frag_reasm(qp, prev, dev)\<close>. When \<open>prev\<close> is not NULL the buffer just received
  is cloned into its place in the chain and becomes the head by \<^verbatim>\<open>skb_morph\<close>, so in
  both cases the head has the contents of the first fragment of the chain. An empty
  chain is a NULL dereference (\<open>OOPS\<close>).
\<close>

definition ip_frag_reasm ::
  "config \<Rightarrow> env \<Rightarrow> net \<Rightarrow> ipq \<Rightarrow> sk_buff option \<Rightarrow> int option
     \<Rightarrow> (errno + sk_buff) \<times> net \<times> ipq" where
  "ip_frag_reasm cfg orc n qp0 prev dv =
     (let qp = ipq_kill qp0
      in if ip_frag_ecn_table cfg (ecn qp) = 0xff then (Inl EINVAL, reasm_fail n, qp)
      else if prev \<noteq> None \<and> \<not> clone_ok orc then (Inl ENOMEM, reasm_fail n, qp)
      else (case fragments qp of
        [] \<Rightarrow> (Inl OOPS, n, qp)
      | head # rest \<Rightarrow>
          if int (ihl head) + len qp > 65535 then (Inl E2BIG, reasm_fail n, qp)
          else if \<not> unclone_ok orc then (Inl ENOMEM, reasm_fail n, qp)
          else if has_frag_list head \<and> \<not> alloc_ok orc then (Inl ENOMEM, reasm_fail n, qp)
          else (Inr (reasm_datagram cfg qp head rest dv),
                n\<lparr>reasmoks := reasmoks n + 1\<rparr>,
                qp\<lparr>fragments := []\<rparr>)))"

subsection \<open>Insertion\<close>

text \<open>
  Lines 434 to 442 of \<^verbatim>\<open>ip_frag_queue\<close>: the completed queue is refused, and the
  too-far heuristic may reinitialise the queue or, when that fails, kill it.
\<close>

definition ip_frag_queue_far ::
  "config \<Rightarrow> env \<Rightarrow> net \<Rightarrow> ipq \<Rightarrow> sk_buff \<Rightarrow> (errno \<times> net \<times> ipq) + (net \<times> ipq)" where
  "ip_frag_queue_far cfg orc n qp skb =
     (if INET_FRAG_COMPLETE \<in> flags qp then Inl (ENOENT, n, qp)
      else if IPSKB_FRAG_COMPLETE \<in> ipcb_flags skb then Inr (n, qp)
      else (case ip_frag_too_far cfg n qp of
              (rc, n1, qp1) \<Rightarrow>
                if \<not> rc then Inr (n1, qp1)
                else (case ip_frag_reinit orc qp1 of
                        (Some e, qp2) \<Rightarrow> Inl (e, n1, ipq_kill qp2)
                      | (None, qp2) \<Rightarrow> Inr (n1, qp2))))"

text \<open>
  Lines 444 to 477: the end of the byte range \<open>[offset, end)\<close> of the fragment and
  the checks of the total length. A final fragment (\<^verbatim>\<open>IP_MF\<close> clear) sets
  \<^verbatim>\<open>INET_FRAG_LAST_IN\<close> and the length; any other has its end cut down to a multiple
  of 8 and may raise the length.
\<close>

definition ip_frag_queue_end ::
  "ipq \<Rightarrow> sk_buff \<Rightarrow> (errno \<times> ipq) + (ipq \<times> sk_buff \<times> int)" where
  "ip_frag_queue_end qp skb =
     (let end0 = frag_offset skb + skb_len skb
      in if \<not> frag_mf skb then
           (if end0 < len qp \<or> (INET_FRAG_LAST_IN \<in> flags qp \<and> end0 \<noteq> len qp)
            then Inl (EINVAL, qp)
            else Inr (qp\<lparr>flags := insert INET_FRAG_LAST_IN (flags qp), len := end0\<rparr>,
                      skb, end0))
         else
           (let e = (if end0 mod 8 \<noteq> 0 then end0 - end0 mod 8 else end0);
                skb0 = (if end0 mod 8 \<noteq> 0 then summed_none skb else skb)
            in if e > len qp then
                 (if INET_FRAG_LAST_IN \<in> flags qp then Inl (EINVAL, qp)
                  else Inr (qp\<lparr>len := e\<rparr>, skb0, e))
               else Inr (qp, skb0, e)))"

text \<open>
  Lines 444 to 487: after the checks of the length an empty range is refused, the
  header is pulled and the buffer is cut to the range. The result is the queue, the
  buffer, the offset and the end.
\<close>

definition ip_frag_queue_range ::
  "env \<Rightarrow> ipq \<Rightarrow> sk_buff \<Rightarrow> (errno \<times> ipq) + (ipq \<times> sk_buff \<times> int \<times> int)" where
  "ip_frag_queue_range orc qp skb =
     (case ip_frag_queue_end qp skb of
        Inl er \<Rightarrow> Inl er
      | Inr (qp1, skb0, e) \<Rightarrow>
          (let offset = frag_offset skb
           in if e = offset then Inl (EINVAL, qp1)
              else if \<not> pull_hdr_ok orc then Inl (ENOMEM, qp1)
              else (case pskb_trim_rcsum orc skb0 (e - offset) of
                      None \<Rightarrow> Inl (ENOMEM, qp1)
                    | Some skb1 \<Rightarrow> Inr (qp1, skb1, offset, e))))"

text \<open>
  Lines 493 to 503: the fragments in front (the last of them is \<^verbatim>\<open>prev\<close>) and at the
  back (the first of them is \<^verbatim>\<open>next\<close>), with the shortcut through the tail.
\<close>

definition ip_frag_queue_find :: "sk_buff list \<Rightarrow> int \<Rightarrow> sk_buff list \<times> sk_buff list" where
  "ip_frag_queue_find fl offset =
     (if fl = [] \<or> cb_offset (last fl) < offset then (fl, [])
      else (takeWhile (\<lambda>f. cb_offset f < offset) fl,
            dropWhile (\<lambda>f. cb_offset f < offset) fl))"

text \<open>
  Lines 510 to 524: the head of the new fragment is cut where \<^verbatim>\<open>prev\<close> overlaps it.
\<close>

definition ip_frag_queue_prev ::
  "env \<Rightarrow> sk_buff list \<Rightarrow> sk_buff \<Rightarrow> int \<Rightarrow> int \<Rightarrow> errno + (sk_buff \<times> int)" where
  "ip_frag_queue_prev orc front skb offset e =
     (if front = [] then Inr (skb, offset)
      else
        let prev = last front;
            i = (cb_offset prev + skb_len prev) - offset
        in if i > 0 then
             (if e \<le> offset + i then Inl EINVAL
              else if \<not> pull_head_ok orc then Inl ENOMEM
              else Inr (summed_none (pskb_pull skb i), offset + i))
           else Inr (skb, offset))"

text \<open>
  Lines 528 to 559: the loop over the fragments at the back. It returns the error if
  \<^verbatim>\<open>pskb_pull\<close> failed, the fragments left at the back and the new \<^verbatim>\<open>meat\<close>.
\<close>

fun ip_frag_queue_next ::
  "env \<Rightarrow> int \<Rightarrow> sk_buff list \<Rightarrow> int \<Rightarrow> errno option \<times> sk_buff list \<times> int" where
  "ip_frag_queue_next orc e [] m = (None, [], m)"
| "ip_frag_queue_next orc e (nxt # rest) m =
     (if cb_offset nxt < e then
        (let i = e - cb_offset nxt
         in if i < skb_len nxt then
              (if \<not> pull_next_ok orc then (Some ENOMEM, nxt # rest, m)
               else (None,
                     summed_none ((pskb_pull nxt i)\<lparr>cb_offset := cb_offset nxt + i\<rparr>) # rest,
                     m - i))
            else ip_frag_queue_next orc e rest (m - skb_len nxt))
      else (None, nxt # rest, m))"

text \<open>
  Lines 561 to 591: the fragment is linked between the front and the back, and the
  queue's interface, \<^verbatim>\<open>meat\<close>, ECN union, \<^verbatim>\<open>FIRST_IN\<close> and the two largest sizes
  are updated.
\<close>

definition ip_frag_queue_link ::
  "ipq \<Rightarrow> sk_buff list \<Rightarrow> sk_buff \<Rightarrow> int \<Rightarrow> sk_buff list \<Rightarrow> int \<Rightarrow> ipq" where
  "ip_frag_queue_link qp front skb offset back m =
     (let fragsize = length (data skb) + ihl skb;
          mx = (if fragsize > max_size qp then fragsize mod 65536 else max_size qp);
          mxdf = (if frag_df skb \<and> fragsize > max_df_size qp then fragsize mod 65536
                  else max_df_size qp)
      in qp\<lparr>fragments := front @ skb\<lparr>cb_offset := offset, dev := None\<rparr> # back,
            iif := (case dev skb of None \<Rightarrow> iif qp | Some ifindex \<Rightarrow> ifindex),
            meat := m + skb_len skb,
            ecn := ecn qp OR ip4_frag_ecn (tos skb),
            flags := (if offset = 0 then insert INET_FRAG_FIRST_IN (flags qp) else flags qp),
            max_size := mx,
            max_df_size := mxdf\<rparr>)"

text \<open>
  Lines 444 to 591 together: \<open>Inl\<close> is a jump to \<^verbatim>\<open>err:\<close> with the queue as it is then;
  \<open>Inr\<close> is the queue with the fragment linked, the buffer as it was linked (after the
  cuts), and \<^verbatim>\<open>prev\<close> (\<open>None\<close> for NULL).
\<close>

definition ip_frag_queue_insert ::
  "env \<Rightarrow> ipq \<Rightarrow> sk_buff \<Rightarrow> (errno \<times> ipq) + (ipq \<times> sk_buff \<times> sk_buff option)" where
  "ip_frag_queue_insert orc qp skb =
     (case ip_frag_queue_range orc qp skb of
        Inl er \<Rightarrow> Inl er
      | Inr (qp1, skb1, offset, e) \<Rightarrow>
          (case ip_frag_queue_find (fragments qp1) offset of
             (front, back) \<Rightarrow>
               (case ip_frag_queue_prev orc front skb1 offset e of
                  Inl er \<Rightarrow> Inl (er, qp1)
                | Inr (skb2, offset2) \<Rightarrow>
                    (case ip_frag_queue_next orc e back (meat qp1) of
                       (Some er, back1, m) \<Rightarrow>
                         Inl (er, qp1\<lparr>fragments := front @ back1, meat := m\<rparr>)
                     | (None, back1, m) \<Rightarrow>
                         Inr (ip_frag_queue_link qp1 front skb2 offset2 back1 m,
                              skb2,
                              (if front = [] then None else Some (last front)))))))"

text \<open>\<^verbatim>\<open>ip_frag_queue(qp, skb)\<close>.\<close>

definition ip_frag_queue :: "config \<Rightarrow> env \<Rightarrow> net \<Rightarrow> ipq \<Rightarrow> sk_buff \<Rightarrow> frag_ret" where
  "ip_frag_queue cfg orc n qp skb =
     (case ip_frag_queue_far cfg orc n qp skb of
        Inl (er, n1, qp1) \<Rightarrow> \<lparr>ret = Inl er, skb_freed = True, net_out = n1, qp_out = qp1\<rparr>
      | Inr (n1, qp1) \<Rightarrow>
          (case ip_frag_queue_insert orc qp1 skb of
             Inl (er, qp2) \<Rightarrow> \<lparr>ret = Inl er, skb_freed = True, net_out = n1, qp_out = qp2\<rparr>
           | Inr (qp2, skb2, prev) \<Rightarrow>
               if flags qp2 = {INET_FRAG_FIRST_IN, INET_FRAG_LAST_IN} \<and> meat qp2 = len qp2
               then (case ip_frag_reasm cfg orc n1 qp2 prev (dev skb) of
                       (r, n3, qp3) \<Rightarrow>
                         \<lparr>ret = r, skb_freed = False, net_out = n3, qp_out = qp3\<rparr>)
               else \<lparr>ret = Inl EINPROGRESS, skb_freed = False, net_out = n1, qp_out = qp2\<rparr>))"

text \<open>
  A sequence of calls of \<^verbatim>\<open>ip_frag_queue\<close> on one queue, as \<^verbatim>\<open>rpl_ip_defrag\<close> makes
  them for the fragments of one key. Before each call the peer's counter has advanced
  by the attempts on other queues of the same peer. The results are listed in order.
\<close>

fun ip_defrag_list :: "config \<Rightarrow> net \<Rightarrow> ipq \<Rightarrow> (env \<times> sk_buff) list \<Rightarrow> frag_ret list" where
  "ip_defrag_list cfg n qp [] = []"
| "ip_defrag_list cfg n qp ((orc, skb) # steps) =
     (let r = ip_frag_queue cfg orc (n\<lparr>peer_rid := peer_rid n + rid_others orc\<rparr>) qp skb
      in r # ip_defrag_list cfg (net_out r) (qp_out r) steps)"

subsection \<open>The fragments held by a queue\<close>

text \<open>
  The end of the byte range of a queued fragment, and the state of the chain that the
  insertion maintains: every fragment is non-empty and ends no later than each fragment
  behind it starts, and \<^verbatim>\<open>meat\<close> is the number of bytes held.
\<close>

definition frag_end :: "sk_buff \<Rightarrow> int" where
  "frag_end f = cb_offset f + skb_len f"

definition frags_ok :: "sk_buff list \<Rightarrow> bool" where
  "frags_ok fl =
     (sorted_wrt (\<lambda>f g. frag_end f \<le> cb_offset g) fl \<and> (\<forall>f \<in> set fl. 0 < skb_len f))"

definition frag_inv :: "ipq \<Rightarrow> bool" where
  "frag_inv qp =
     (frags_ok (fragments qp) \<and> meat qp = sum_list (map skb_len (fragments qp)))"

subsection \<open>Example data\<close>

text \<open>
  The table \<^verbatim>\<open>ip_frag_ecn_table\<close> of the Linux kernel (\<^verbatim>\<open>net/ipv4/inet_fragment.c\<close>),
  indexed by the union of \<^verbatim>\<open>IPFRAG_ECN_NOT_ECT = 1\<close>, \<^verbatim>\<open>IPFRAG_ECN_ECT_1 = 2\<close>,
  \<^verbatim>\<open>IPFRAG_ECN_ECT_0 = 4\<close> and \<^verbatim>\<open>IPFRAG_ECN_CE = 8\<close>: Not-ECT mixed with anything
  else is invalid (\<open>0xff\<close>), CE mixed with ECT gives \<^verbatim>\<open>INET_ECN_CE = 3\<close>, the rest 0. It
  instantiates the parameter in the examples.
\<close>

definition linux_ecn_table :: "8 word \<Rightarrow> 8 word" where
  "linux_ecn_table u =
     (if u AND 1 \<noteq> 0 \<and> u \<noteq> 1 then 0xff
      else if u AND 8 \<noteq> 0 \<and> u \<noteq> 8 then 3
      else 0)"

definition cfg64 :: config where
  "cfg64 = \<lparr>sysctl_ipfrag_max_dist = 64, ip_frag_ecn_table = linux_ecn_table\<rparr>"

definition cfg1 :: config where
  "cfg1 = \<lparr>sysctl_ipfrag_max_dist = 1, ip_frag_ecn_table = linux_ecn_table\<rparr>"

text \<open>An environment in which nothing fails and no other queue touches the peer.\<close>

definition env_ok :: env where
  "env_ok = \<lparr>rid_others = 0, timer_pending = True, pull_hdr_ok = True, trim_ok = True,
              pull_head_ok = True, pull_next_ok = True, clone_ok = True, unclone_ok = True,
              alloc_ok = True\<rparr>"

definition net0 :: net where
  "net0 = \<lparr>peer_rid = 0, reasmfails = 0, reasmoks = 0\<rparr>"

text \<open>
  A received fragment with a 20-byte header, the given \<open>frag_off\<close> field and payload.
\<close>

definition mk_frag :: "16 word \<Rightarrow> byte list \<Rightarrow> sk_buff" where
  "mk_frag fo bs =
     \<lparr>ihl = 20, tos = 0, tot_len = 20 + length bs, frag_off = fo, data = bs, cb_offset = 0,
      dev = Some 1, ip_summed = CHECKSUM_NONE, ipcb_flags = {}, frag_max_size = 0,
      has_frag_list = False\<rparr>"

text \<open>Bytes 0 to 7 of a datagram, more fragments to come.\<close>

definition frag_0_8 :: sk_buff where
  "frag_0_8 = mk_frag 0x2000 [1, 2, 3, 4, 5, 6, 7, 8]"

text \<open>An empty final fragment at offset 16.\<close>

definition frag_16_empty :: sk_buff where
  "frag_16_empty = mk_frag 0x0002 []"

text \<open>The queue created by \<open>frag_0_8\<close>, and the queue after its insertion.\<close>

definition qp_fresh :: ipq where
  "qp_fresh = ip4_frag_init cfg64 True frag_0_8"

definition qp_0_8 :: ipq where
  "qp_0_8 = qp_out (ip_frag_queue cfg64 env_ok net0 qp_fresh frag_0_8)"

text \<open>Bytes 8 to 15, the final fragment.\<close>

definition frag_8_16 :: sk_buff where
  "frag_8_16 = mk_frag 0x0001 [9, 10, 11, 12, 13, 14, 15, 16]"

text \<open>Bytes 8 to 23, a final fragment that declares another total length.\<close>

definition frag_8_24 :: sk_buff where
  "frag_8_24 = mk_frag 0x0001 [9, 10, 11, 12, 13, 14, 15, 16, 17, 18, 19, 20, 21, 22, 23, 24]"

text \<open>Bytes 16 to 23 with \<^verbatim>\<open>IP_DF\<close> set, more fragments to come.\<close>

definition frag_df_16_24 :: sk_buff where
  "frag_df_16_24 = mk_frag 0x6002 [17, 18, 19, 20, 21, 22, 23, 24]"

text \<open>The environment after 100 attempts on other queues of the same peer.\<close>

definition env_far :: env where
  "env_far = env_ok\<lparr>rid_others := 100\<rparr>"

text \<open>Other bytes 0 to 7, with \<^verbatim>\<open>IP_DF\<close> set, more fragments to come.\<close>

definition frag_df_0_8 :: sk_buff where
  "frag_df_0_8 = mk_frag 0x6000 [101, 102, 103, 104, 105, 106, 107, 108]"

text \<open>Bytes 0 to 15, more fragments to come.\<close>

definition frag_0_16 :: sk_buff where
  "frag_0_16 = mk_frag 0x2000 [1, 2, 3, 4, 5, 6, 7, 8, 9, 10, 11, 12, 13, 14, 15, 16]"

text \<open>Bytes 8 to 27 with \<^verbatim>\<open>IP_DF\<close> set, the final fragment.\<close>

definition frag_df_8_28 :: sk_buff where
  "frag_df_8_28 = mk_frag 0x4001 [9, 10, 11, 12, 13, 14, 15, 16, 17, 18, 19, 20,
                                  21, 22, 23, 24, 25, 26, 27, 28]"

text \<open>Bytes 0 to 65511, more fragments to come.\<close>

definition frag_big_0 :: sk_buff where
  "frag_big_0 = mk_frag 0x2000 (replicate 65512 0)"

text \<open>Bytes 65512 to 65535 as the final fragment, marked CE.\<close>

definition frag_big_last :: sk_buff where
  "frag_big_last = (mk_frag 0x1FFD (replicate 24 0))\<lparr>tos := 3\<rparr>"

text \<open>Bytes 0 to 7 in a buffer flagged \<^verbatim>\<open>IPSKB_FRAG_COMPLETE\<close>.\<close>

definition frag_0_8_out :: sk_buff where
  "frag_0_8_out = frag_0_8\<lparr>ipcb_flags := {IPSKB_FRAG_COMPLETE}\<rparr>"

text \<open>The queue created by \<open>frag_8_16\<close>, after its insertion.\<close>

definition qp_8_16 :: ipq where
  "qp_8_16 = qp_out (ip_frag_queue cfg64 env_ok net0 (ip4_frag_init cfg64 True frag_8_16) frag_8_16)"

text \<open>The peer counter after one and after two attempts.\<close>

definition net1 :: net where
  "net1 = \<lparr>peer_rid = 1, reasmfails = 0, reasmoks = 0\<rparr>"

definition net2 :: net where
  "net2 = \<lparr>peer_rid = 2, reasmfails = 0, reasmoks = 0\<rparr>"

text \<open>Bytes 65512 to 65535 as the final fragment, Not-ECT as \<open>frag_big_0\<close> is.\<close>

definition frag_big_last0 :: sk_buff where
  "frag_big_last0 = mk_frag 0x1FFD (replicate 24 0)"

text \<open>The queue that holds \<open>frag_big_0\<close> and \<open>frag_big_last0\<close>, ready for the gluing.\<close>

definition qp_big :: ipq where
  "qp_big = \<lparr>flags = {INET_FRAG_FIRST_IN, INET_FRAG_LAST_IN}, len = 65536, meat = 65536,
             fragments = [frag_big_0\<lparr>dev := None\<rparr>,
                          frag_big_last0\<lparr>cb_offset := 65512, dev := None\<rparr>],
             max_size = 65532, ecn = 1, max_df_size = 0, iif = 1, rid = 2, peer = True\<rparr>"

text \<open>An empty final fragment at offset 8.\<close>

definition frag_8_empty :: sk_buff where
  "frag_8_empty = mk_frag 0x0001 []"

subsection \<open>The sizes recorded by a run\<close>

text \<open>
  What lines 584 to 591 see during the calls of \<open>ip_defrag_list\<close>: for each call that
  links its buffer, whether the buffer carries \<^verbatim>\<open>IP_DF\<close>, and
  \<^verbatim>\<open>fragsize = skb->len + ihl\<close> of the buffer as it is linked, after the cuts.
\<close>

fun ip_defrag_sizes :: "config \<Rightarrow> net \<Rightarrow> ipq \<Rightarrow> (env \<times> sk_buff) list \<Rightarrow> (bool \<times> nat) list" where
  "ip_defrag_sizes cfg n qp [] = []"
| "ip_defrag_sizes cfg n qp ((orc, skb) # steps) =
     (let n0 = n\<lparr>peer_rid := peer_rid n + rid_others orc\<rparr>;
          r = ip_frag_queue cfg orc n0 qp skb;
          rec = (case ip_frag_queue_far cfg orc n0 qp skb of
                   Inl er \<Rightarrow> []
                 | Inr (n1, qp1) \<Rightarrow>
                     (case ip_frag_queue_insert orc qp1 skb of
                        Inl er \<Rightarrow> []
                      | Inr (qp2, skb2, prev) \<Rightarrow>
                          [(frag_df skb2, length (data skb2) + ihl skb2)]))
      in rec @ ip_defrag_sizes cfg (net_out r) (qp_out r) steps)"

text \<open>
  The two largest sizes of a queue are explained by a list of recorded sizes, each
  between 1 and 65535.
\<close>

definition sizes_inv :: "ipq \<Rightarrow> (bool \<times> nat) list \<Rightarrow> bool" where
  "sizes_inv qp ps =
     (max_size qp = Max (insert 0 (snd ` set ps))
      \<and> max_df_size qp = Max (insert 0 (snd ` {x \<in> set ps. fst x}))
      \<and> (\<forall>x \<in> set ps. 0 < snd x \<and> snd x \<le> 65535))"

subsection \<open>Fragment sets of one datagram\<close>

text \<open>The end of the byte range of a fragment as received.\<close>

definition wire_end :: "sk_buff \<Rightarrow> int" where
  "wire_end f = frag_offset f + skb_len f"

text \<open>
  Fragments in offset order that tile the bytes from \<open>pos\<close> on: each begins where the one
  before it ends, none is empty, and only the last has \<^verbatim>\<open>IP_MF\<close> clear.
\<close>

fun frag_chain :: "int \<Rightarrow> sk_buff list \<Rightarrow> bool" where
  "frag_chain pos [] = False"
| "frag_chain pos [f] = (frag_offset f = pos \<and> \<not> frag_mf f \<and> data f \<noteq> [])"
| "frag_chain pos (f # g # fs) =
     (frag_offset f = pos \<and> frag_mf f \<and> data f \<noteq> [] \<and> frag_chain (wire_end f) (g # fs))"

text \<open>The ECN bits of all fragments, as \<^verbatim>\<open>qp->ecn\<close> collects them.\<close>

definition ecn_union :: "sk_buff list \<Rightarrow> 8 word" where
  "ecn_union fs = fold (\<lambda>f u. u OR ip4_frag_ecn (tos f)) fs 0"

text \<open>
  A valid set of fragments, listed in offset order: it tiles the datagram from byte 0,
  the ECN combination is allowed, the datagram with the header of the first fragment
  has at most 65535 bytes, and so has each fragment.
\<close>

definition valid_frags :: "config \<Rightarrow> sk_buff list \<Rightarrow> bool" where
  "valid_frags cfg fs =
     (frag_chain 0 fs
      \<and> ip_frag_ecn_table cfg (ecn_union fs) \<noteq> 0xff
      \<and> int (ihl (hd fs)) + sum_list (map skb_len fs) \<le> 65535
      \<and> (\<forall>f \<in> set fs. length (data f) + ihl f \<le> 65535))"

text \<open>
  An arrival at which no allocation fails, no other queue has advanced the counter of
  the peer, and the buffer is not marked \<^verbatim>\<open>IPSKB_FRAG_COMPLETE\<close>.
\<close>

definition arrival_ok :: "env \<times> sk_buff \<Rightarrow> bool" where
  "arrival_ok st =
     (rid_others (fst st) = 0 \<and> pull_hdr_ok (fst st) \<and> clone_ok (fst st)
      \<and> unclone_ok (fst st) \<and> alloc_ok (fst st)
      \<and> IPSKB_FRAG_COMPLETE \<notin> ipcb_flags (snd st))"

text \<open>A fragment as it sits in the chain of the queue.\<close>

definition queued :: "sk_buff \<Rightarrow> sk_buff" where
  "queued f = f\<lparr>cb_offset := frag_offset f, dev := None\<rparr>"

text \<open>
  The state of a queue that has received the fragments \<open>ys\<close> of the set \<open>fs\<close>, in the
  order of \<open>ys\<close>; \<open>e0\<close> are the ECN bits the queue was created with.
\<close>

definition held :: "config \<Rightarrow> sk_buff list \<Rightarrow> 8 word \<Rightarrow> net \<Rightarrow> ipq \<Rightarrow> sk_buff list \<Rightarrow> bool" where
  "held cfg fs e0 n qp ys =
     (fragments qp = map queued (filter (\<lambda>f. f \<in> set ys) fs)
      \<and> meat qp = sum_list (map skb_len (filter (\<lambda>f. f \<in> set ys) fs))
      \<and> len qp \<le> sum_list (map skb_len fs)
      \<and> (last fs \<in> set ys \<longrightarrow> len qp = sum_list (map skb_len fs))
      \<and> flags qp = (if hd fs \<in> set ys then {INET_FRAG_FIRST_IN} else {})
                   \<union> (if last fs \<in> set ys then {INET_FRAG_LAST_IN} else {})
      \<and> ecn qp = fold (\<lambda>f u. u OR ip4_frag_ecn (tos f)) ys e0
      \<and> sizes_inv qp (map (\<lambda>f. (frag_df f, length (data f) + ihl f)) ys)
      \<and> (peer qp \<longrightarrow> sysctl_ipfrag_max_dist cfg \<noteq> 0 \<longrightarrow> ys \<noteq> []
           \<longrightarrow> rid qp = peer_rid n))"
section \<open>Properties\<close>

lemmas model_defs =
  ip_frag_queue_def ip_frag_queue_far_def ip_frag_too_far_def ip_frag_reinit_def
  reinit_fields_def ip_frag_queue_insert_def ip_frag_queue_range_def ip_frag_queue_end_def
  ip_frag_queue_find_def ip_frag_queue_prev_def ip_frag_queue_link_def ip_frag_reasm_def
  reasm_datagram_def reasm_fail_def ipq_kill_def ip4_frag_init_def pskb_trim_rcsum_def
  pskb_pull_def summed_none_def skb_len_def frag_offset_def frag_mf_def frag_df_def
  IP_MF_def IP_DF_def IP_OFFSET_def INET_ECN_MASK_def ip4_frag_ecn_def

lemmas example_defs =
  linux_ecn_table_def cfg64_def cfg1_def env_ok_def net0_def net1_def net2_def mk_frag_def
  frag_0_8_def frag_16_empty_def qp_fresh_def frag_8_16_def frag_8_24_def frag_df_16_24_def
  env_far_def frag_df_0_8_def frag_0_16_def frag_df_8_28_def frag_big_0_def
  frag_big_last_def frag_0_8_out_def frag_big_last0_def frag_8_empty_def

lemmas run_defs = ip_defrag_list.simps model_defs example_defs Let_def insert_commute

subsection \<open>The example queues\<close>

lemma qp_0_8_eq:
  "qp_0_8 = \<lparr>flags = {INET_FRAG_FIRST_IN}, len = 8, meat = 8,
             fragments = [frag_0_8\<lparr>dev := None\<rparr>], max_size = 28, ecn = 1, max_df_size = 0,
             iif = 1, rid = 1, peer = True\<rparr>"
  by (simp add: qp_0_8_def run_defs)

lemma qp_8_16_eq:
  "qp_8_16 = \<lparr>flags = {INET_FRAG_LAST_IN}, len = 16, meat = 8,
             fragments = [frag_8_16\<lparr>cb_offset := 8, dev := None\<rparr>], max_size = 28, ecn = 1,
             max_df_size = 0, iif = 1, rid = 1, peer = True\<rparr>"
  by (simp add: qp_8_16_def run_defs)

subsection \<open>The phases of the insertion\<close>

lemma frag_offset_ge0: "0 \<le> frag_offset skb"
  by (simp add: frag_offset_def)

lemma frag_offset_mod8: "frag_offset skb mod 8 = 0"
  by (simp add: frag_offset_def)

lemma skb_len_ge0: "0 \<le> skb_len skb"
  by (simp add: skb_len_def)

lemma skb_len_summed_none [simp]: "skb_len (summed_none skb) = skb_len skb"
  by (simp add: summed_none_def skb_len_def)

lemma data_summed_none [simp]: "data (summed_none skb) = data skb"
  by (simp add: summed_none_def)

lemma hdr_summed_none [simp]:
  "ihl (summed_none skb) = ihl skb" "frag_off (summed_none skb) = frag_off skb"
  "tos (summed_none skb) = tos skb" "cb_offset (summed_none skb) = cb_offset skb"
  "dev (summed_none skb) = dev skb"
  by (simp_all add: summed_none_def)

lemma ip_frag_queue_end_Inl:
  "ip_frag_queue_end qp skb = Inl (er, qp') \<Longrightarrow> er = EINVAL \<and> qp' = qp"
  by (auto simp: ip_frag_queue_end_def Let_def split: if_splits)

lemma ip_frag_queue_end_Inr:
  assumes "ip_frag_queue_end qp skb = Inr (qp1, skb0, e)"
  shows "qp1 = qp\<lparr>flags := flags qp1, len := len qp1\<rparr>"
    and "flags qp1 = (if frag_mf skb then flags qp else insert INET_FRAG_LAST_IN (flags qp))"
    and "len qp1 = (if frag_mf skb then max (len qp) e else e)"
    and "frag_offset skb \<le> e" and "e \<le> frag_offset skb + skb_len skb"
    and "\<not> frag_mf skb \<Longrightarrow> e = frag_offset skb + skb_len skb"
    and "frag_mf skb \<Longrightarrow> e = frag_offset skb + skb_len skb - (frag_offset skb + skb_len skb) mod 8"
    and "data skb0 = data skb" and "ihl skb0 = ihl skb" and "frag_off skb0 = frag_off skb"
    and "tos skb0 = tos skb" and "dev skb0 = dev skb"
    and "(frag_offset skb + skb_len skb) mod 8 = 0 \<or> \<not> frag_mf skb \<Longrightarrow> skb0 = skb"
proof -
  have m: "(frag_offset skb + skb_len skb) mod 8 \<le> skb_len skb"
    using frag_offset_mod8 [of skb] skb_len_ge0 [of skb]
    by (smt (verit) mod_add_left_eq mod_le_divisor mod_mod_trivial zmod_le_nonneg_dividend add_0)
  from assms show "qp1 = qp\<lparr>flags := flags qp1, len := len qp1\<rparr>"
    by (auto simp: ip_frag_queue_end_def Let_def split: if_splits)
  from assms show "flags qp1 = (if frag_mf skb then flags qp else insert INET_FRAG_LAST_IN (flags qp))"
    by (auto simp: ip_frag_queue_end_def Let_def split: if_splits)
  from assms show "len qp1 = (if frag_mf skb then max (len qp) e else e)"
    by (auto simp: ip_frag_queue_end_def Let_def split: if_splits)
  from assms m show "frag_offset skb \<le> e"
    using skb_len_ge0 [of skb]
    by (auto simp: ip_frag_queue_end_def Let_def split: if_splits)
  from assms show "e \<le> frag_offset skb + skb_len skb"
    by (auto simp: ip_frag_queue_end_def Let_def split: if_splits)
  from assms show "\<not> frag_mf skb \<Longrightarrow> e = frag_offset skb + skb_len skb"
    by (auto simp: ip_frag_queue_end_def Let_def split: if_splits)
  from assms show "frag_mf skb \<Longrightarrow> e = frag_offset skb + skb_len skb - (frag_offset skb + skb_len skb) mod 8"
    by (auto simp: ip_frag_queue_end_def Let_def split: if_splits)
  from assms show "data skb0 = data skb" "ihl skb0 = ihl skb" "frag_off skb0 = frag_off skb"
    "tos skb0 = tos skb" "dev skb0 = dev skb"
    by (auto simp: ip_frag_queue_end_def Let_def split: if_splits)
  from assms show "(frag_offset skb + skb_len skb) mod 8 = 0 \<or> \<not> frag_mf skb \<Longrightarrow> skb0 = skb"
    by (auto simp: ip_frag_queue_end_def Let_def split: if_splits)
qed

lemma pskb_trim_rcsum_Some:
  assumes "pskb_trim_rcsum orc skb n = Some skb1" and "0 \<le> n"
  shows "data skb1 = take (nat n) (data skb)" and "ihl skb1 = ihl skb"
    and "frag_off skb1 = frag_off skb" and "tos skb1 = tos skb" and "dev skb1 = dev skb"
    and "skb_len skb \<le> n \<Longrightarrow> skb1 = skb"
  using assms by (auto simp: pskb_trim_rcsum_def skb_len_def split: if_splits)

lemma ip_frag_queue_range_Inl:
  assumes "ip_frag_queue_range orc qp skb = Inl (er, qp1)"
  shows "qp1 = qp\<lparr>flags := flags qp1, len := len qp1\<rparr>"
proof (cases "ip_frag_queue_end qp skb")
  case (Inl a)
  with assms have "a = (er, qp1)"
    by (simp add: ip_frag_queue_range_def)
  with Inl ip_frag_queue_end_Inl [of qp skb er qp1] show ?thesis
    by simp
next
  case (Inr b)
  obtain qa skb0 e where b: "b = (qa, skb0, e)"
    by (cases b)
  from assms Inr b have "qp1 = qa"
    by (auto simp: ip_frag_queue_range_def Let_def split: if_splits option.splits)
  with ip_frag_queue_end_Inr(1) [of qp skb qa skb0 e] Inr b show ?thesis
    by simp
qed

lemma ip_frag_queue_range_Inr:
  assumes "ip_frag_queue_range orc qp skb = Inr (qp1, skb1, offset, e)"
  shows "qp1 = qp\<lparr>flags := flags qp1, len := len qp1\<rparr>"
    and "flags qp1 = (if frag_mf skb then flags qp else insert INET_FRAG_LAST_IN (flags qp))"
    and "len qp1 = (if frag_mf skb then max (len qp) e else e)"
    and "offset = frag_offset skb" and "offset < e" and "e \<le> offset + skb_len skb"
    and "\<not> frag_mf skb \<Longrightarrow> e = offset + skb_len skb"
    and "frag_mf skb \<Longrightarrow> e = offset + skb_len skb - (offset + skb_len skb) mod 8"
    and "data skb1 = take (nat (e - offset)) (data skb)" and "skb_len skb1 = e - offset"
    and "ihl skb1 = ihl skb" and "frag_off skb1 = frag_off skb" and "tos skb1 = tos skb"
    and "dev skb1 = dev skb" and "pull_hdr_ok orc"
    and "(offset + skb_len skb) mod 8 = 0 \<or> \<not> frag_mf skb \<Longrightarrow> skb1 = skb"
proof -
  from assms obtain qa skb0 ea where en: "ip_frag_queue_end qp skb = Inr (qa, skb0, ea)"
    by (cases "ip_frag_queue_end qp skb") (auto simp: ip_frag_queue_range_def)
  note E = ip_frag_queue_end_Inr [OF en]
  from assms en have eq: "qa = qp1" "ea = e" "offset = frag_offset skb" "e \<noteq> offset"
    and ok: "pull_hdr_ok orc"
    and tr: "pskb_trim_rcsum orc skb0 (e - offset) = Some skb1"
    by (auto simp: ip_frag_queue_range_def Let_def split: if_splits option.splits)
  from E(4) eq have lt: "offset < e" by simp
  then have nn: "0 \<le> e - offset" by simp
  note T = pskb_trim_rcsum_Some [OF tr nn]
  show "qp1 = qp\<lparr>flags := flags qp1, len := len qp1\<rparr>" using E(1) eq by simp
  show "flags qp1 = (if frag_mf skb then flags qp else insert INET_FRAG_LAST_IN (flags qp))"
    using E(2) eq by simp
  show "len qp1 = (if frag_mf skb then max (len qp) e else e)" using E(3) eq by simp
  show "offset = frag_offset skb" by fact
  show "offset < e" by fact
  show le: "e \<le> offset + skb_len skb" using E(5) eq by simp
  show "\<not> frag_mf skb \<Longrightarrow> e = offset + skb_len skb" using E(6) eq by simp
  show "frag_mf skb \<Longrightarrow> e = offset + skb_len skb - (offset + skb_len skb) mod 8"
    using E(7) eq by simp
  show d: "data skb1 = take (nat (e - offset)) (data skb)" using T(1) E(8) by simp
  show "skb_len skb1 = e - offset" using d le lt by (simp add: skb_len_def)
  show "ihl skb1 = ihl skb" "frag_off skb1 = frag_off skb" "tos skb1 = tos skb"
    "dev skb1 = dev skb"
    using T E by simp_all
  show "pull_hdr_ok orc" by fact
  show "skb1 = skb" if a: "(offset + skb_len skb) mod 8 = 0 \<or> \<not> frag_mf skb"
  proof -
    from a E(13) eq have s0: "skb0 = skb" by simp
    have "e = offset + skb_len skb"
    proof (cases "frag_mf skb")
      case True
      with a have z: "(offset + skb_len skb) mod 8 = 0" by simp
      from E(7) [OF True] eq have "e = offset + skb_len skb - (offset + skb_len skb) mod 8"
        by simp
      with z show ?thesis by (simp only: diff_zero)
    next
      case False
      with E(6) eq show ?thesis by simp
    qed
    with T(6) s0 show ?thesis by simp
  qed
qed

lemma ip_frag_queue_find_append:
  "ip_frag_queue_find fl offset = (front, rear) \<Longrightarrow> fl = front @ rear"
  by (auto simp: ip_frag_queue_find_def split: if_splits)

lemma ip_frag_queue_prev_Inr:
  assumes "ip_frag_queue_prev orc front skb1 offset e = Inr (skb2, offset2)"
  shows "offset \<le> offset2" and "offset2 < e \<or> (offset2 = offset)"
    and "front \<noteq> [] \<Longrightarrow> frag_end (last front) \<le> offset2"
    and "data skb2 = drop (nat (offset2 - offset)) (data skb1)"
    and "ihl skb2 = ihl skb1" and "frag_off skb2 = frag_off skb1" and "tos skb2 = tos skb1"
    and "dev skb2 = dev skb1"
    and "offset2 = offset \<Longrightarrow> skb2 = skb1"
  using assms
  by (auto simp: ip_frag_queue_prev_def Let_def frag_end_def pskb_pull_def split: if_splits)

lemma ip_frag_queue_prev_Inl:
  assumes "ip_frag_queue_prev orc front skb1 offset e = Inl er"
  shows "front \<noteq> []" and "offset < frag_end (last front)"
    and "er = EINVAL \<or> er = ENOMEM"
  using assms
  by (auto simp: ip_frag_queue_prev_def Let_def frag_end_def split: if_splits)

lemma ip_frag_queue_insert_cases [case_names range_err prev_err next_err linked]:
  obtains
    (range_err) er qp1 where
      "ip_frag_queue_range orc qp skb = Inl (er, qp1)"
      "ip_frag_queue_insert orc qp skb = Inl (er, qp1)"
  | (prev_err) qp1 skb1 offset e front rear er where
      "ip_frag_queue_range orc qp skb = Inr (qp1, skb1, offset, e)"
      "ip_frag_queue_find (fragments qp1) offset = (front, rear)"
      "ip_frag_queue_prev orc front skb1 offset e = Inl er"
      "ip_frag_queue_insert orc qp skb = Inl (er, qp1)"
  | (next_err) qp1 skb1 offset e front rear skb2 offset2 er rear1 m where
      "ip_frag_queue_range orc qp skb = Inr (qp1, skb1, offset, e)"
      "ip_frag_queue_find (fragments qp1) offset = (front, rear)"
      "ip_frag_queue_prev orc front skb1 offset e = Inr (skb2, offset2)"
      "ip_frag_queue_next orc e rear (meat qp1) = (Some er, rear1, m)"
      "ip_frag_queue_insert orc qp skb = Inl (er, qp1\<lparr>fragments := front @ rear1, meat := m\<rparr>)"
  | (linked) qp1 skb1 offset e front rear skb2 offset2 rear1 m where
      "ip_frag_queue_range orc qp skb = Inr (qp1, skb1, offset, e)"
      "ip_frag_queue_find (fragments qp1) offset = (front, rear)"
      "ip_frag_queue_prev orc front skb1 offset e = Inr (skb2, offset2)"
      "ip_frag_queue_next orc e rear (meat qp1) = (None, rear1, m)"
      "ip_frag_queue_insert orc qp skb =
         Inr (ip_frag_queue_link qp1 front skb2 offset2 rear1 m, skb2,
              (if front = [] then None else Some (last front)))"
proof (cases "ip_frag_queue_range orc qp skb")
  case (Inl a)
  obtain er qp1 where a: "a = (er, qp1)" by (cases a)
  show ?thesis
    by (rule range_err [of er qp1]) (simp_all add: Inl a ip_frag_queue_insert_def)
next
  case (Inr b)
  obtain qp1 skb1 offset e where b: "b = (qp1, skb1, offset, e)" by (cases b)
  obtain front rear where f: "ip_frag_queue_find (fragments qp1) offset = (front, rear)"
    by (cases "ip_frag_queue_find (fragments qp1) offset")
  show ?thesis
  proof (cases "ip_frag_queue_prev orc front skb1 offset e")
    case (Inl er)
    show ?thesis
      by (rule prev_err [of qp1 skb1 offset e front rear er])
         (simp_all add: Inr b f Inl ip_frag_queue_insert_def)
  next
    case pr: (Inr c)
    obtain skb2 offset2 where c: "c = (skb2, offset2)" by (cases c)
    obtain oe rear1 m where nx: "ip_frag_queue_next orc e rear (meat qp1) = (oe, rear1, m)"
      by (cases "ip_frag_queue_next orc e rear (meat qp1)")
    show ?thesis
    proof (cases oe)
      case None
      show ?thesis
        by (rule linked [of qp1 skb1 offset e front rear skb2 offset2 rear1 m])
           (simp_all add: Inr b f pr c nx None ip_frag_queue_insert_def)
    next
      case (Some er)
      show ?thesis
        by (rule next_err [of qp1 skb1 offset e front rear skb2 offset2 er rear1 m])
           (simp_all add: Inr b f pr c nx Some ip_frag_queue_insert_def)
    qed
  qed
qed

lemma frags_ok_Cons:
  "frags_ok (f # fl) \<longleftrightarrow>
     (\<forall>g \<in> set fl. frag_end f \<le> cb_offset g) \<and> 0 < skb_len f \<and> frags_ok fl"
  by (auto simp: frags_ok_def)

lemma frags_ok_Nil [simp]: "frags_ok []"
  by (simp add: frags_ok_def)

lemma frags_ok_append:
  "frags_ok (xs @ ys) \<longleftrightarrow>
     frags_ok xs \<and> frags_ok ys \<and> (\<forall>f \<in> set xs. \<forall>g \<in> set ys. frag_end f \<le> cb_offset g)"
  by (auto simp: frags_ok_def sorted_wrt_append)

lemma frags_ok_end_le_last:
  "frags_ok fl \<Longrightarrow> f \<in> set fl \<Longrightarrow> frag_end f \<le> frag_end (last fl)"
proof (induction fl)
  case Nil
  then show ?case by simp
next
  case (Cons a fl)
  show ?case
  proof (cases "fl = []")
    case True
    with Cons.prems show ?thesis by simp
  next
    case False
    then have l: "last fl \<in> set fl" by simp
    from Cons.prems(1) have ok: "frags_ok fl" and a: "\<forall>g \<in> set fl. frag_end a \<le> cb_offset g"
      by (simp_all add: frags_ok_Cons)
    from ok l have "0 < skb_len (last fl)" by (simp add: frags_ok_def)
    with a l have "frag_end a \<le> frag_end (last fl)"
      by (fastforce simp: frag_end_def)
    with Cons.IH [OF ok] Cons.prems(2) False show ?thesis by auto
  qed
qed

lemma frags_ok_strict:
  "frags_ok fl \<Longrightarrow> sorted_wrt (\<lambda>f g. cb_offset f < cb_offset g) fl"
proof (induction fl)
  case Nil
  then show ?case by simp
next
  case (Cons a fl)
  then have "\<forall>g \<in> set fl. frag_end a \<le> cb_offset g" "0 < skb_len a" "frags_ok fl"
    by (simp_all add: frags_ok_Cons)
  with Cons.IH show ?case by (fastforce simp: frag_end_def)
qed

lemma ip_frag_queue_next_props:
  assumes "ip_frag_queue_next orc e rear m = (oe, rear1, m1)" and "frags_ok rear"
  shows "frags_ok rear1
       \<and> m1 - sum_list (map skb_len rear1) = m - sum_list (map skb_len rear)
       \<and> (\<forall>g \<in> set rear1. \<exists>g0 \<in> set rear. cb_offset g0 \<le> cb_offset g)
       \<and> (oe = None \<longrightarrow> (\<forall>g \<in> set rear1. e \<le> cb_offset g))"
  using assms
proof (induction rear arbitrary: m)
  case Nil
  then show ?case by simp
next
  case (Cons nxt rest)
  from Cons.prems(2) have ok: "frags_ok rest" and pos: "0 < skb_len nxt"
    and sep: "\<forall>g \<in> set rest. frag_end nxt \<le> cb_offset g"
    by (simp_all add: frags_ok_Cons)
  show ?case
  proof (cases "cb_offset nxt < e")
    case False
    with Cons.prems(1) have r: "oe = None" "rear1 = nxt # rest" "m1 = m" by simp_all
    from False pos sep have "\<forall>g \<in> set rest. e \<le> cb_offset g"
      by (fastforce simp: frag_end_def)
    with r False Cons.prems(2) show ?thesis by auto
  next
    case True
    show ?thesis
    proof (cases "e - cb_offset nxt < skb_len nxt")
      case cut: True
      show ?thesis
      proof (cases "pull_next_ok orc")
        case False
        with True cut Cons.prems(1) have r: "rear1 = nxt # rest" "m1 = m" by simp_all
        with False True cut Cons.prems show ?thesis by auto
      next
        case pok: True
        let ?n = "summed_none ((pskb_pull nxt (e - cb_offset nxt))\<lparr>cb_offset := e\<rparr>)"
        from True cut pok Cons.prems(1) have r: "oe = None" "rear1 = ?n # rest"
          "m1 = m - (e - cb_offset nxt)"
          by (simp_all add: Let_def)
        have o: "cb_offset ?n = e" by simp
        have l: "skb_len ?n = skb_len nxt - (e - cb_offset nxt)"
          using True cut by (simp add: skb_len_def pskb_pull_def)
        from o l have fe: "frag_end ?n = frag_end nxt" by (simp add: frag_end_def)
        from l cut have p: "0 < skb_len ?n" by simp
        have e: "\<forall>g \<in> set rest. e \<le> cb_offset g"
          using sep cut by (fastforce simp: frag_end_def)
        from fe sep p ok have "frags_ok (?n # rest)" by (simp add: frags_ok_Cons)
        with r o l e True show ?thesis by auto
      qed
    next
      case False
      with True Cons.prems(1)
      have rec: "ip_frag_queue_next orc e rest (m - skb_len nxt) = (oe, rear1, m1)"
        by (simp add: Let_def)
      from Cons.IH [OF rec ok] show ?thesis by auto
    qed
  qed
qed

lemma ip_frag_queue_link_fields:
  "fragments (ip_frag_queue_link qp front skb offset rear m)
     = front @ skb\<lparr>cb_offset := offset, dev := None\<rparr> # rear"
  "meat (ip_frag_queue_link qp front skb offset rear m) = m + skb_len skb"
  "len (ip_frag_queue_link qp front skb offset rear m) = len qp"
  "rid (ip_frag_queue_link qp front skb offset rear m) = rid qp"
  "peer (ip_frag_queue_link qp front skb offset rear m) = peer qp"
  "flags (ip_frag_queue_link qp front skb offset rear m)
     = (if offset = 0 then insert INET_FRAG_FIRST_IN (flags qp) else flags qp)"
  "ecn (ip_frag_queue_link qp front skb offset rear m) = ecn qp OR ip4_frag_ecn (tos skb)"
  by (simp_all add: ip_frag_queue_link_def Let_def)

lemma ipq_flags_len_frame:
  assumes "qp1 = qp\<lparr>flags := F, len := L\<rparr>"
  shows "fragments qp1 = fragments qp" and "meat qp1 = meat qp" and "rid qp1 = rid qp"
    and "peer qp1 = peer qp" and "max_size qp1 = max_size qp"
    and "max_df_size qp1 = max_df_size qp" and "ecn qp1 = ecn qp" and "iif qp1 = iif qp"
  by (simp_all add: assms)

lemmas ip_frag_queue_range_Inl_frame =
  ipq_flags_len_frame [OF ip_frag_queue_range_Inl]

lemmas ip_frag_queue_range_Inr_frame =
  ipq_flags_len_frame [OF ip_frag_queue_range_Inr(1)]

lemma ip_frag_queue_insert_inv:
  assumes inv: "frag_inv qp"
  shows "ip_frag_queue_insert orc qp skb = Inl (er, qp') \<Longrightarrow> frag_inv qp'"
    and "ip_frag_queue_insert orc qp skb = Inr (qp', skb', prev) \<Longrightarrow> frag_inv qp'"
proof -
  have "(\<forall>er qp'. ip_frag_queue_insert orc qp skb = Inl (er, qp') \<longrightarrow> frag_inv qp')
      \<and> (\<forall>qp' skb' prev. ip_frag_queue_insert orc qp skb = Inr (qp', skb', prev)
            \<longrightarrow> frag_inv qp')"
  proof (cases rule: ip_frag_queue_insert_cases [where orc = orc and qp = qp and skb = skb])
    case (range_err er qp1)
    from ip_frag_queue_range_Inl_frame(1,2) [OF range_err(1)] inv have "frag_inv qp1"
      by (simp add: frag_inv_def)
    with range_err(2) show ?thesis by simp
  next
    case (prev_err qp1 skb1 offset e front rear er)
    from ip_frag_queue_range_Inr_frame(1,2) [OF prev_err(1)] inv have "frag_inv qp1"
      by (simp add: frag_inv_def)
    with prev_err(4) show ?thesis by simp
  next
    case (next_err qp1 skb1 offset e front rear skb2 offset2 er rear1 m)
    from ip_frag_queue_range_Inr_frame(1,2) [OF next_err(1)] inv
    have ok: "frags_ok (fragments qp1)"
      and mt: "meat qp1 = sum_list (map skb_len (fragments qp1))"
      by (simp_all add: frag_inv_def)
    from ip_frag_queue_find_append [OF next_err(2)] have fl: "fragments qp1 = front @ rear" .
    from ok fl have okf: "frags_ok front" and okr: "frags_ok rear"
      and sep: "\<forall>f \<in> set front. \<forall>g \<in> set rear. frag_end f \<le> cb_offset g"
      by (simp_all add: frags_ok_append)
    from ip_frag_queue_next_props [OF next_err(4) okr]
    have okr1: "frags_ok rear1"
      and m: "m - sum_list (map skb_len rear1) = meat qp1 - sum_list (map skb_len rear)"
      and src: "\<forall>g \<in> set rear1. \<exists>g0 \<in> set rear. cb_offset g0 \<le> cb_offset g"
      by simp_all
    from sep src have sep1: "\<forall>f \<in> set front. \<forall>g \<in> set rear1. frag_end f \<le> cb_offset g"
      by (meson order_trans)
    from okf okr1 sep1 have "frags_ok (front @ rear1)" by (simp add: frags_ok_append)
    moreover from m mt fl have "m = sum_list (map skb_len (front @ rear1))" by simp
    ultimately have "frag_inv (qp1\<lparr>fragments := front @ rear1, meat := m\<rparr>)"
      by (simp add: frag_inv_def)
    with next_err(5) show ?thesis by simp
  next
    case (linked qp1 skb1 offset e front rear skb2 offset2 rear1 m)
    note R = ip_frag_queue_range_Inr [OF linked(1)]
    note P = ip_frag_queue_prev_Inr [OF linked(3)]
    from ip_frag_queue_range_Inr_frame(1,2) [OF linked(1)] inv
    have ok: "frags_ok (fragments qp1)"
      and mt: "meat qp1 = sum_list (map skb_len (fragments qp1))"
      by (simp_all add: frag_inv_def)
    from ip_frag_queue_find_append [OF linked(2)] have fl: "fragments qp1 = front @ rear" .
    from ok fl have okf: "frags_ok front" and okr: "frags_ok rear"
      and sep: "\<forall>f \<in> set front. \<forall>g \<in> set rear. frag_end f \<le> cb_offset g"
      by (simp_all add: frags_ok_append)
    from ip_frag_queue_next_props [OF linked(4) okr]
    have okr1: "frags_ok rear1"
      and m: "m - sum_list (map skb_len rear1) = meat qp1 - sum_list (map skb_len rear)"
      and src: "\<forall>g \<in> set rear1. \<exists>g0 \<in> set rear. cb_offset g0 \<le> cb_offset g"
      and ge: "\<forall>g \<in> set rear1. e \<le> cb_offset g"
      by simp_all
    from sep src have sep1: "\<forall>f \<in> set front. \<forall>g \<in> set rear1. frag_end f \<le> cb_offset g"
      by (meson order_trans)
    let ?new = "skb2\<lparr>cb_offset := offset2, dev := None\<rparr>"
    from P(1,2) R(5) have o2: "offset \<le> offset2" "offset2 < e" by auto
    have l2: "skb_len skb2 = e - offset2"
      using P(4) R(10) o2 by (simp add: skb_len_def)
    then have ln: "skb_len ?new = e - offset2" by (simp add: skb_len_def)
    then have en: "frag_end ?new = e" by (simp add: frag_end_def)
    have fr: "\<forall>f \<in> set front. frag_end f \<le> offset2"
    proof
      fix f assume f: "f \<in> set front"
      then have "front \<noteq> []" by auto
      from frags_ok_end_le_last [OF okf f] P(3) [OF this] show "frag_end f \<le> offset2"
        by simp
    qed
    from okf okr1 sep1 fr ge ln en o2
    have "frags_ok (front @ ?new # rear1)"
      by (simp add: frags_ok_append frags_ok_Cons)
    moreover from m mt fl l2
    have "m + skb_len skb2 = sum_list (map skb_len (front @ ?new # rear1))"
      by (simp add: ln)
    ultimately have "frag_inv (ip_frag_queue_link qp1 front skb2 offset2 rear1 m)"
      by (simp add: frag_inv_def ip_frag_queue_link_fields)
    with linked(5) show ?thesis by simp
  qed
  then show "ip_frag_queue_insert orc qp skb = Inl (er, qp') \<Longrightarrow> frag_inv qp'"
    and "ip_frag_queue_insert orc qp skb = Inr (qp', skb', prev) \<Longrightarrow> frag_inv qp'"
    by blast+
qed

subsection \<open>The too-far check and the gluing\<close>

lemma ip_frag_too_far_frame:
  assumes "ip_frag_too_far cfg n qp = (rc, n1, qp1)"
  shows "qp1 = qp\<lparr>rid := rid qp1\<rparr>" and "rc \<Longrightarrow> fragments qp \<noteq> []"
    and "reasmoks n1 = reasmoks n"
  using assms by (auto simp: ip_frag_too_far_def Let_def split: if_splits)

lemma ipq_rid_frame:
  assumes "qp1 = qp\<lparr>rid := R\<rparr>"
  shows "fragments qp1 = fragments qp" and "meat qp1 = meat qp" and "len qp1 = len qp"
    and "flags qp1 = flags qp" and "peer qp1 = peer qp" and "max_size qp1 = max_size qp"
    and "max_df_size qp1 = max_df_size qp" and "ecn qp1 = ecn qp" and "iif qp1 = iif qp"
  by (simp_all add: assms)

lemmas ip_frag_too_far_fields = ipq_rid_frame [OF ip_frag_too_far_frame(1)]

lemma reinit_fields_simps [simp]:
  "flags (reinit_fields qp) = {}" "len (reinit_fields qp) = 0" "meat (reinit_fields qp) = 0"
  "fragments (reinit_fields qp) = []" "iif (reinit_fields qp) = 0" "ecn (reinit_fields qp) = 0"
  "max_size (reinit_fields qp) = max_size qp" "max_df_size (reinit_fields qp) = max_df_size qp"
  "rid (reinit_fields qp) = rid qp" "peer (reinit_fields qp) = peer qp"
  by (simp_all add: reinit_fields_def)

lemma ip_frag_queue_far_cases [case_names complete skip near killed reinit]:
  obtains
    (complete) "INET_FRAG_COMPLETE \<in> flags qp"
      "ip_frag_queue_far cfg orc n qp skb = Inl (ENOENT, n, qp)"
  | (skip) "INET_FRAG_COMPLETE \<notin> flags qp" "IPSKB_FRAG_COMPLETE \<in> ipcb_flags skb"
      "ip_frag_queue_far cfg orc n qp skb = Inr (n, qp)"
  | (near) n1 qp1 where "INET_FRAG_COMPLETE \<notin> flags qp"
      "IPSKB_FRAG_COMPLETE \<notin> ipcb_flags skb"
      "ip_frag_too_far cfg n qp = (False, n1, qp1)"
      "ip_frag_queue_far cfg orc n qp skb = Inr (n1, qp1)"
  | (killed) n1 qp1 where "INET_FRAG_COMPLETE \<notin> flags qp"
      "IPSKB_FRAG_COMPLETE \<notin> ipcb_flags skb"
      "ip_frag_too_far cfg n qp = (True, n1, qp1)" "\<not> timer_pending orc"
      "ip_frag_queue_far cfg orc n qp skb = Inl (ETIMEDOUT, n1, ipq_kill qp1)"
  | (reinit) n1 qp1 where "INET_FRAG_COMPLETE \<notin> flags qp"
      "IPSKB_FRAG_COMPLETE \<notin> ipcb_flags skb"
      "ip_frag_too_far cfg n qp = (True, n1, qp1)" "timer_pending orc"
      "ip_frag_queue_far cfg orc n qp skb = Inr (n1, reinit_fields qp1)"
proof (cases "INET_FRAG_COMPLETE \<in> flags qp")
  case True
  show ?thesis by (rule complete) (simp_all add: True ip_frag_queue_far_def)
next
  case nc: False
  show ?thesis
  proof (cases "IPSKB_FRAG_COMPLETE \<in> ipcb_flags skb")
    case True
    show ?thesis by (rule skip) (simp_all add: nc True ip_frag_queue_far_def)
  next
    case ns: False
    obtain rc n1 qp1 where tf: "ip_frag_too_far cfg n qp = (rc, n1, qp1)"
      by (cases "ip_frag_too_far cfg n qp")
    show ?thesis
    proof (cases rc)
      case False
      show ?thesis
        by (rule near [of n1 qp1]) (use tf False in \<open>simp_all add: nc ns ip_frag_queue_far_def\<close>)
    next
      case rc: True
      show ?thesis
      proof (cases "timer_pending orc")
        case False
        show ?thesis
          by (rule killed [of n1 qp1])
             (use tf rc False in
               \<open>simp_all add: nc ns ip_frag_queue_far_def ip_frag_reinit_def\<close>)
      next
        case True
        show ?thesis
          by (rule reinit [of n1 qp1])
             (use tf rc True in
               \<open>simp_all add: nc ns ip_frag_queue_far_def ip_frag_reinit_def reinit_fields_def\<close>)
      qed
    qed
  qed
qed

lemma ip_frag_queue_far_Inl:
  assumes "ip_frag_queue_far cfg orc n qp skb = Inl (er, n1, qp1)"
  shows "fragments qp1 = fragments qp" and "meat qp1 = meat qp" and "len qp1 = len qp"
    and "max_size qp1 = max_size qp" and "max_df_size qp1 = max_df_size qp"
    and "INET_FRAG_COMPLETE \<in> flags qp1" and "er = ENOENT \<or> er = ETIMEDOUT"
    and "er = ENOENT \<longleftrightarrow> INET_FRAG_COMPLETE \<in> flags qp"
    and "er = ENOENT \<Longrightarrow> qp1 = qp \<and> n1 = n"
proof -
  have "fragments qp1 = fragments qp \<and> meat qp1 = meat qp \<and> len qp1 = len qp
      \<and> max_size qp1 = max_size qp \<and> max_df_size qp1 = max_df_size qp
      \<and> INET_FRAG_COMPLETE \<in> flags qp1 \<and> (er = ENOENT \<or> er = ETIMEDOUT)
      \<and> (er = ENOENT \<longleftrightarrow> INET_FRAG_COMPLETE \<in> flags qp)
      \<and> (er = ENOENT \<longrightarrow> qp1 = qp \<and> n1 = n)"
  proof (cases rule: ip_frag_queue_far_cases
      [where cfg = cfg and orc = orc and n = n and qp = qp and skb = skb])
    case complete
    with assms show ?thesis by simp
  next
    case skip
    with assms show ?thesis by simp
  next
    case (near na qa)
    with assms show ?thesis by simp
  next
    case (killed na qa)
    with assms have e: "er = ETIMEDOUT" "qp1 = ipq_kill qa" by simp_all
    from ip_frag_too_far_fields [OF killed(3)] killed(1) e show ?thesis
      by (simp add: ipq_kill_def)
  next
    case (reinit na qa)
    with assms show ?thesis by simp
  qed
  then show "fragments qp1 = fragments qp" and "meat qp1 = meat qp" and "len qp1 = len qp"
    and "max_size qp1 = max_size qp" and "max_df_size qp1 = max_df_size qp"
    and "INET_FRAG_COMPLETE \<in> flags qp1" and "er = ENOENT \<or> er = ETIMEDOUT"
    and "er = ENOENT \<longleftrightarrow> INET_FRAG_COMPLETE \<in> flags qp"
    and "er = ENOENT \<Longrightarrow> qp1 = qp \<and> n1 = n"
    by blast+
qed

lemma ip_frag_queue_far_Inr:
  assumes "ip_frag_queue_far cfg orc n qp skb = Inr (n1, qp1)"
  shows "INET_FRAG_COMPLETE \<notin> flags qp" and "INET_FRAG_COMPLETE \<notin> flags qp1"
    and "max_size qp1 = max_size qp" and "max_df_size qp1 = max_df_size qp"
    and "peer qp1 = peer qp"
    and "(fragments qp1 = fragments qp \<and> meat qp1 = meat qp \<and> len qp1 = len qp
          \<and> flags qp1 = flags qp \<and> ecn qp1 = ecn qp)
         \<or> (fragments qp1 = [] \<and> meat qp1 = 0 \<and> len qp1 = 0 \<and> flags qp1 = {}
             \<and> ecn qp1 = 0 \<and> fragments qp \<noteq> [])"
proof -
  have "INET_FRAG_COMPLETE \<notin> flags qp \<and> INET_FRAG_COMPLETE \<notin> flags qp1
      \<and> max_size qp1 = max_size qp \<and> max_df_size qp1 = max_df_size qp
      \<and> peer qp1 = peer qp
      \<and> ((fragments qp1 = fragments qp \<and> meat qp1 = meat qp \<and> len qp1 = len qp
          \<and> flags qp1 = flags qp \<and> ecn qp1 = ecn qp)
         \<or> (fragments qp1 = [] \<and> meat qp1 = 0 \<and> len qp1 = 0 \<and> flags qp1 = {}
             \<and> ecn qp1 = 0 \<and> fragments qp \<noteq> []))"
  proof (cases rule: ip_frag_queue_far_cases
      [where cfg = cfg and orc = orc and n = n and qp = qp and skb = skb])
    case complete
    with assms show ?thesis by simp
  next
    case skip
    with assms show ?thesis by simp
  next
    case (near na qa)
    with assms have "qp1 = qa" by simp
    with ip_frag_too_far_fields [OF near(3)] near(1) show ?thesis by simp
  next
    case (killed na qa)
    with assms show ?thesis by simp
  next
    case (reinit na qa)
    with assms have "qp1 = reinit_fields qa" by simp
    with ip_frag_too_far_fields [OF reinit(3)] ip_frag_too_far_frame(2) [OF reinit(3)] reinit(1)
    show ?thesis by simp
  qed
  then show "INET_FRAG_COMPLETE \<notin> flags qp" and "INET_FRAG_COMPLETE \<notin> flags qp1"
    and "max_size qp1 = max_size qp" and "max_df_size qp1 = max_df_size qp"
    and "peer qp1 = peer qp"
    and "(fragments qp1 = fragments qp \<and> meat qp1 = meat qp \<and> len qp1 = len qp
          \<and> flags qp1 = flags qp \<and> ecn qp1 = ecn qp)
         \<or> (fragments qp1 = [] \<and> meat qp1 = 0 \<and> len qp1 = 0 \<and> flags qp1 = {}
             \<and> ecn qp1 = 0 \<and> fragments qp \<noteq> [])"
    by blast+
qed

lemma ip_frag_queue_far_inv:
  assumes "ip_frag_queue_far cfg orc n qp skb = Inr (n1, qp1)" and "frag_inv qp"
  shows "frag_inv qp1"
  using ip_frag_queue_far_Inr(6) [OF assms(1)] assms(2)
  by (auto simp: frag_inv_def)

lemma ip_frag_queue_cases [case_names far_err insert_err pending reasm]:
  obtains
    (far_err) er n1 qp1 where
      "ip_frag_queue_far cfg orc n qp skb = Inl (er, n1, qp1)"
      "ip_frag_queue cfg orc n qp skb =
         \<lparr>ret = Inl er, skb_freed = True, net_out = n1, qp_out = qp1\<rparr>"
  | (insert_err) n1 qp1 er qp2 where
      "ip_frag_queue_far cfg orc n qp skb = Inr (n1, qp1)"
      "ip_frag_queue_insert orc qp1 skb = Inl (er, qp2)"
      "ip_frag_queue cfg orc n qp skb =
         \<lparr>ret = Inl er, skb_freed = True, net_out = n1, qp_out = qp2\<rparr>"
  | (pending) n1 qp1 qp2 skb2 prev where
      "ip_frag_queue_far cfg orc n qp skb = Inr (n1, qp1)"
      "ip_frag_queue_insert orc qp1 skb = Inr (qp2, skb2, prev)"
      "\<not> (flags qp2 = {INET_FRAG_FIRST_IN, INET_FRAG_LAST_IN} \<and> meat qp2 = len qp2)"
      "ip_frag_queue cfg orc n qp skb =
         \<lparr>ret = Inl EINPROGRESS, skb_freed = False, net_out = n1, qp_out = qp2\<rparr>"
  | (reasm) n1 qp1 qp2 skb2 prev r n3 qp3 where
      "ip_frag_queue_far cfg orc n qp skb = Inr (n1, qp1)"
      "ip_frag_queue_insert orc qp1 skb = Inr (qp2, skb2, prev)"
      "flags qp2 = {INET_FRAG_FIRST_IN, INET_FRAG_LAST_IN}" "meat qp2 = len qp2"
      "ip_frag_reasm cfg orc n1 qp2 prev (dev skb) = (r, n3, qp3)"
      "ip_frag_queue cfg orc n qp skb =
         \<lparr>ret = r, skb_freed = False, net_out = n3, qp_out = qp3\<rparr>"
proof (cases "ip_frag_queue_far cfg orc n qp skb")
  case (Inl a)
  obtain er n1 qp1 where a: "a = (er, n1, qp1)" by (cases a)
  show ?thesis
    by (rule far_err [of er n1 qp1]) (simp_all add: Inl a ip_frag_queue_def)
next
  case (Inr b)
  obtain n1 qp1 where b: "b = (n1, qp1)" by (cases b)
  show ?thesis
  proof (cases "ip_frag_queue_insert orc qp1 skb")
    case (Inl a)
    obtain er qp2 where a: "a = (er, qp2)" by (cases a)
    show ?thesis
      by (rule insert_err [of n1 qp1 er qp2]) (simp_all add: Inr b Inl a ip_frag_queue_def)
  next
    case ins: (Inr c)
    obtain qp2 skb2 prev where c: "c = (qp2, skb2, prev)" by (cases c)
    show ?thesis
    proof (cases "flags qp2 = {INET_FRAG_FIRST_IN, INET_FRAG_LAST_IN} \<and> meat qp2 = len qp2")
      case False
      have "ip_frag_queue cfg orc n qp skb =
              \<lparr>ret = Inl EINPROGRESS, skb_freed = False, net_out = n1, qp_out = qp2\<rparr>"
        by (simp only: ip_frag_queue_def Inr b ins c sum.case prod.case if_not_P [OF False])
      with False show ?thesis
        by (intro pending [of n1 qp1 qp2 skb2 prev]) (simp_all add: Inr b ins c)
    next
      case True
      obtain r n3 qp3 where g: "ip_frag_reasm cfg orc n1 qp2 prev (dev skb) = (r, n3, qp3)"
        by (cases "ip_frag_reasm cfg orc n1 qp2 prev (dev skb)")
      have "ip_frag_queue cfg orc n qp skb =
              \<lparr>ret = r, skb_freed = False, net_out = n3, qp_out = qp3\<rparr>"
        by (simp only: ip_frag_queue_def Inr b ins c sum.case prod.case if_P [OF True] g)
      with True g show ?thesis
        by (intro reasm [of n1 qp1 qp2 skb2 prev r n3 qp3]) (simp_all add: Inr b ins c)
    qed
  qed
qed

lemma ip_frag_reasm_cases
  [case_names ecn_err clone_err empty oversize unclone_err alloc_err glued]:
  obtains
    (ecn_err) "ip_frag_ecn_table cfg (ecn qp) = 0xff"
      "ip_frag_reasm cfg orc n qp prev dv = (Inl EINVAL, reasm_fail n, ipq_kill qp)"
  | (clone_err) "ip_frag_ecn_table cfg (ecn qp) \<noteq> 0xff" "prev \<noteq> None" "\<not> clone_ok orc"
      "ip_frag_reasm cfg orc n qp prev dv = (Inl ENOMEM, reasm_fail n, ipq_kill qp)"
  | (empty) "ip_frag_ecn_table cfg (ecn qp) \<noteq> 0xff" "prev = None \<or> clone_ok orc"
      "fragments qp = []"
      "ip_frag_reasm cfg orc n qp prev dv = (Inl OOPS, n, ipq_kill qp)"
  | (oversize) head rest where
      "ip_frag_ecn_table cfg (ecn qp) \<noteq> 0xff" "prev = None \<or> clone_ok orc"
      "fragments qp = head # rest" "int (ihl head) + len qp > 65535"
      "ip_frag_reasm cfg orc n qp prev dv = (Inl E2BIG, reasm_fail n, ipq_kill qp)"
  | (unclone_err) head rest where
      "ip_frag_ecn_table cfg (ecn qp) \<noteq> 0xff" "prev = None \<or> clone_ok orc"
      "fragments qp = head # rest" "int (ihl head) + len qp \<le> 65535" "\<not> unclone_ok orc"
      "ip_frag_reasm cfg orc n qp prev dv = (Inl ENOMEM, reasm_fail n, ipq_kill qp)"
  | (alloc_err) head rest where
      "ip_frag_ecn_table cfg (ecn qp) \<noteq> 0xff" "prev = None \<or> clone_ok orc"
      "fragments qp = head # rest" "int (ihl head) + len qp \<le> 65535" "unclone_ok orc"
      "has_frag_list head" "\<not> alloc_ok orc"
      "ip_frag_reasm cfg orc n qp prev dv = (Inl ENOMEM, reasm_fail n, ipq_kill qp)"
  | (glued) head rest where
      "ip_frag_ecn_table cfg (ecn qp) \<noteq> 0xff" "prev = None \<or> clone_ok orc"
      "fragments qp = head # rest" "int (ihl head) + len qp \<le> 65535" "unclone_ok orc"
      "has_frag_list head \<longrightarrow> alloc_ok orc"
      "ip_frag_reasm cfg orc n qp prev dv =
         (Inr (reasm_datagram cfg qp head rest dv), n\<lparr>reasmoks := reasmoks n + 1\<rparr>,
          (ipq_kill qp)\<lparr>fragments := []\<rparr>)"
proof (cases "ip_frag_ecn_table cfg (ecn qp) = 0xff")
  case True
  show ?thesis
    by (rule ecn_err) (simp_all add: True ip_frag_reasm_def ipq_kill_def reasm_fail_def)
next
  case e: False
  show ?thesis
  proof (cases "prev \<noteq> None \<and> \<not> clone_ok orc")
    case True
    show ?thesis
      by (rule clone_err)
         (use e True in \<open>simp_all add: ip_frag_reasm_def ipq_kill_def reasm_fail_def\<close>)
  next
    case c: False
    show ?thesis
    proof (cases "fragments qp")
      case Nil
      show ?thesis
        by (rule empty) (use e c Nil in \<open>auto simp: ip_frag_reasm_def ipq_kill_def\<close>)
    next
      case (Cons head rest)
      show ?thesis
      proof (cases "int (ihl head) + len qp > 65535")
        case True
        show ?thesis
          by (rule oversize [of head rest])
             (use e c Cons True in
               \<open>auto simp: ip_frag_reasm_def ipq_kill_def reasm_fail_def Let_def\<close>)
      next
        case sz: False
        show ?thesis
        proof (cases "unclone_ok orc")
          case False
          show ?thesis
            by (rule unclone_err [of head rest])
               (use e c Cons sz False in
                 \<open>auto simp: ip_frag_reasm_def ipq_kill_def reasm_fail_def Let_def\<close>)
        next
          case u: True
          show ?thesis
          proof (cases "has_frag_list head \<and> \<not> alloc_ok orc")
            case True
            show ?thesis
              by (rule alloc_err [of head rest])
                 (use e c Cons sz u True in
                   \<open>auto simp: ip_frag_reasm_def ipq_kill_def reasm_fail_def Let_def\<close>)
          next
            case False
            show ?thesis
              by (rule glued [of head rest])
                 (use e c Cons sz u False in
                   \<open>auto simp: ip_frag_reasm_def ipq_kill_def reasm_datagram_def Let_def\<close>)
          qed
        qed
      qed
    qed
  qed
qed

lemma ip_frag_reasm_frame:
  assumes "ip_frag_reasm cfg orc n qp prev dv = (r, n', qp')"
  shows "peer_rid n' = peer_rid n" and "rid qp' = rid qp" and "meat qp' = meat qp"
    and "len qp' = len qp" and "max_size qp' = max_size qp"
    and "max_df_size qp' = max_df_size qp" and "peer qp' = peer qp"
    and "flags qp' = insert INET_FRAG_COMPLETE (flags qp)"
    and "fragments qp' = (case r of Inl er \<Rightarrow> fragments qp | Inr d \<Rightarrow> [])"
proof -
  have "peer_rid n' = peer_rid n \<and> rid qp' = rid qp \<and> meat qp' = meat qp
      \<and> len qp' = len qp \<and> max_size qp' = max_size qp
      \<and> max_df_size qp' = max_df_size qp \<and> peer qp' = peer qp
      \<and> flags qp' = insert INET_FRAG_COMPLETE (flags qp)
      \<and> fragments qp' = (case r of Inl er \<Rightarrow> fragments qp | Inr d \<Rightarrow> [])"
    by (cases rule: ip_frag_reasm_cases
        [where cfg = cfg and orc = orc and n = n and qp = qp and prev = prev and dv = dv])
       (use assms in \<open>auto simp: ipq_kill_def reasm_fail_def\<close>)
  then show "peer_rid n' = peer_rid n" and "rid qp' = rid qp" and "meat qp' = meat qp"
    and "len qp' = len qp" and "max_size qp' = max_size qp"
    and "max_df_size qp' = max_df_size qp" and "peer qp' = peer qp"
    and "flags qp' = insert INET_FRAG_COMPLETE (flags qp)"
    and "fragments qp' = (case r of Inl er \<Rightarrow> fragments qp | Inr d \<Rightarrow> [])"
    by blast+
qed

lemma ip_frag_reasm_Inr:
  assumes "ip_frag_reasm cfg orc n qp prev dv = (Inr d, n', qp')"
  shows "d = reasm_datagram cfg qp (hd (fragments qp)) (tl (fragments qp)) dv"
    and "data d = concat (map data (fragments qp))"
    and "frag_df d \<longleftrightarrow> max_df_size qp = max_size qp"
    and "ip_frag_ecn_table cfg (ecn qp) \<noteq> 0xff"
    and "fragments qp \<noteq> []" and "int (ihl (hd (fragments qp))) + len qp \<le> 65535"
    and "reasmoks n' = reasmoks n + 1" and "reasmfails n' = reasmfails n"
proof -
  have "d = reasm_datagram cfg qp (hd (fragments qp)) (tl (fragments qp)) dv
      \<and> ip_frag_ecn_table cfg (ecn qp) \<noteq> 0xff
      \<and> fragments qp \<noteq> [] \<and> int (ihl (hd (fragments qp))) + len qp \<le> 65535
      \<and> reasmoks n' = reasmoks n + 1 \<and> reasmfails n' = reasmfails n"
    by (cases rule: ip_frag_reasm_cases
        [where cfg = cfg and orc = orc and n = n and qp = qp and prev = prev and dv = dv])
       (use assms in auto)
  then show d: "d = reasm_datagram cfg qp (hd (fragments qp)) (tl (fragments qp)) dv"
    and "ip_frag_ecn_table cfg (ecn qp) \<noteq> 0xff"
    and ne: "fragments qp \<noteq> []" and "int (ihl (hd (fragments qp))) + len qp \<le> 65535"
    and "reasmoks n' = reasmoks n + 1" and "reasmfails n' = reasmfails n"
    by blast+
  from ne have "hd (fragments qp) # tl (fragments qp) = fragments qp" by simp
  then have "concat (map data (hd (fragments qp) # tl (fragments qp)))
             = concat (map data (fragments qp))"
    by (rule arg_cong)
  then show "data d = concat (map data (fragments qp))"
    unfolding d by (simp add: reasm_datagram_def)
  show "frag_df d \<longleftrightarrow> max_df_size qp = max_size qp"
    unfolding d by (simp add: reasm_datagram_def frag_df_def IP_DF_def)
qed

lemma ip_frag_queue_insert_errno:
  assumes "ip_frag_queue_insert orc qp skb = Inl (er, qp')"
  shows "er = EINVAL \<or> er = ENOMEM"
proof (cases rule: ip_frag_queue_insert_cases [where orc = orc and qp = qp and skb = skb])
  case (range_err er1 qp1)
  with assms have e: "ip_frag_queue_range orc qp skb = Inl (er, qp')" by simp
  show ?thesis
  proof (cases "ip_frag_queue_end qp skb")
    case (Inl a)
    with e have "a = (er, qp')" by (simp add: ip_frag_queue_range_def)
    with Inl ip_frag_queue_end_Inl [of qp skb er qp'] show ?thesis by simp
  next
    case (Inr b)
    obtain qa skb0 ea where "b = (qa, skb0, ea)" by (cases b)
    with e Inr show ?thesis
      by (auto simp: ip_frag_queue_range_def Let_def split: if_splits option.splits)
  qed
next
  case (prev_err qp1 skb1 offset e front rear er1)
  with assms ip_frag_queue_prev_Inl(3) [OF prev_err(3)] show ?thesis by simp
next
  case (next_err qp1 skb1 offset e front rear skb2 offset2 er1 rear1 m)
  have "\<And>m. ip_frag_queue_next orc e rear m = (Some er1, rear1, m1) \<Longrightarrow> er1 = ENOMEM" for m1
    by (induction rear) (auto simp: Let_def split: if_splits)
  with next_err(4,5) assms show ?thesis by auto
next
  case (linked qp1 skb1 offset e front rear skb2 offset2 rear1 m)
  with assms show ?thesis by simp
qed

lemma ip_frag_queue_insert_Inr_frame:
  assumes "ip_frag_queue_insert orc qp skb = Inr (qp2, skb2, prev)"
  shows "flags qp2 \<subseteq> insert INET_FRAG_FIRST_IN (insert INET_FRAG_LAST_IN (flags qp))"
    and "rid qp2 = rid qp" and "peer qp2 = peer qp"
proof -
  have "flags qp2 \<subseteq> insert INET_FRAG_FIRST_IN (insert INET_FRAG_LAST_IN (flags qp))
      \<and> rid qp2 = rid qp \<and> peer qp2 = peer qp"
  proof (cases rule: ip_frag_queue_insert_cases [where orc = orc and qp = qp and skb = skb])
    case (linked qp1 skb1 offset e front rear skb2' offset2 rear1 m)
    from assms linked(5) have q: "qp2 = ip_frag_queue_link qp1 front skb2' offset2 rear1 m"
      by auto
    from ip_frag_queue_range_Inr(2) [OF linked(1)] ip_frag_queue_range_Inr_frame(3,4) [OF linked(1)]
    show ?thesis
      unfolding q by (auto simp: ip_frag_queue_link_fields split: if_splits)
  qed (use assms in simp_all)
  then show "flags qp2 \<subseteq> insert INET_FRAG_FIRST_IN (insert INET_FRAG_LAST_IN (flags qp))"
    and "rid qp2 = rid qp" and "peer qp2 = peer qp"
    by blast+
qed

lemma ip_frag_queue_insert_Inl_frame:
  assumes "ip_frag_queue_insert orc qp skb = Inl (er, qp2)"
  shows "flags qp2 \<subseteq> insert INET_FRAG_LAST_IN (flags qp)"
    and "rid qp2 = rid qp" and "peer qp2 = peer qp"
    and "max_size qp2 = max_size qp" and "max_df_size qp2 = max_df_size qp"
proof -
  have "flags qp2 \<subseteq> insert INET_FRAG_LAST_IN (flags qp)
      \<and> rid qp2 = rid qp \<and> peer qp2 = peer qp
      \<and> max_size qp2 = max_size qp \<and> max_df_size qp2 = max_df_size qp"
  proof (cases rule: ip_frag_queue_insert_cases [where orc = orc and qp = qp and skb = skb])
    case (range_err er1 qp1)
    with assms have e: "ip_frag_queue_range orc qp skb = Inl (er, qp2)" by simp
    have fl: "flags qp2 \<subseteq> insert INET_FRAG_LAST_IN (flags qp)"
    proof (cases "ip_frag_queue_end qp skb")
      case (Inl a)
      with e have "a = (er, qp2)" by (simp add: ip_frag_queue_range_def)
      with Inl ip_frag_queue_end_Inl [of qp skb er qp2] show ?thesis by auto
    next
      case (Inr b)
      obtain qa skb0 ea where b: "b = (qa, skb0, ea)" by (cases b)
      with e Inr have "qa = qp2"
        by (auto simp: ip_frag_queue_range_def Let_def split: if_splits option.splits)
      with ip_frag_queue_end_Inr(2) [of qp skb qa skb0 ea] Inr b show ?thesis
        by (auto split: if_splits)
    qed
    with ip_frag_queue_range_Inl_frame [OF e] show ?thesis by simp
  next
    case (prev_err qp1 skb1 offset e front rear er1)
    with assms have "qp2 = qp1" by simp
    with ip_frag_queue_range_Inr(2) [OF prev_err(1)] ip_frag_queue_range_Inr_frame [OF prev_err(1)]
    show ?thesis by (auto split: if_splits)
  next
    case (next_err qp1 skb1 offset e front rear skb2 offset2 er1 rear1 m)
    with assms have "qp2 = qp1\<lparr>fragments := front @ rear1, meat := m\<rparr>" by simp
    with ip_frag_queue_range_Inr(2) [OF next_err(1)] ip_frag_queue_range_Inr_frame [OF next_err(1)]
    show ?thesis by (auto split: if_splits)
  next
    case (linked qp1 skb1 offset e front rear skb2 offset2 rear1 m)
    with assms show ?thesis by simp
  qed
  then show "flags qp2 \<subseteq> insert INET_FRAG_LAST_IN (flags qp)"
    and "rid qp2 = rid qp" and "peer qp2 = peer qp"
    and "max_size qp2 = max_size qp" and "max_df_size qp2 = max_df_size qp"
    by blast+
qed




lemma ip_frag_queue_prev_clear:
  assumes "front = [] \<or> frag_end (last front) \<le> offset"
  shows "ip_frag_queue_prev orc front skb1 offset e = Inr (skb1, offset)"
  using assms
  by (auto simp: ip_frag_queue_prev_def Let_def frag_end_def)

lemma ip_frag_queue_next_clear:
  assumes "\<forall>g \<in> set rear. e \<le> cb_offset g"
  shows "ip_frag_queue_next orc e rear m = (None, rear, m)"
  using assms by (cases rear) auto


subsection \<open>An empty final fragment\<close>

text \<open>
  C9. A final fragment (\<^verbatim>\<open>IP_MF\<close> clear) with an empty byte range that reaches the checks
  of the length and passes them (its end is not below the recorded length, and
  \<^verbatim>\<open>INET_FRAG_LAST_IN\<close> is not set with a different end) is rejected with \<^verbatim>\<open>-EINVAL\<close>
  and freed, and the queue it leaves has \<^verbatim>\<open>INET_FRAG_LAST_IN\<close> set and its length set to
  the end of that fragment. The queue \<open>qp1\<close> is the queue as the checks see it, after the
  too-far heuristic.
\<close>

theorem empty_final_fragment_sets_length:
  assumes "ip_frag_queue_far cfg orc n qp skb = Inr (n1, qp1)"
    and "\<not> frag_mf skb"
    and "data skb = []"
    and "\<not> frag_offset skb < len qp1"
    and "INET_FRAG_LAST_IN \<in> flags qp1 \<longrightarrow> frag_offset skb = len qp1"
  shows "ip_frag_queue cfg orc n qp skb =
           \<lparr>ret = Inl EINVAL, skb_freed = True, net_out = n1,
            qp_out = qp1\<lparr>flags := insert INET_FRAG_LAST_IN (flags qp1),
                          len := frag_offset skb\<rparr>\<rparr>"
  using assms
  by (auto simp: ip_frag_queue_def ip_frag_queue_insert_def ip_frag_queue_range_def
      ip_frag_queue_end_def skb_len_def Let_def)

theorem empty_final_fragment_sets_length_witness:
  "ip_frag_queue cfg64 env_ok net1 qp_0_8 frag_16_empty =
     \<lparr>ret = Inl EINVAL, skb_freed = True,
      net_out = net2,
      qp_out = qp_0_8\<lparr>flags := {INET_FRAG_FIRST_IN, INET_FRAG_LAST_IN}, len := 16, rid := 2\<rparr>\<rparr>
   \<and> len qp_0_8 = 8 \<and> INET_FRAG_LAST_IN \<notin> flags qp_0_8"
proof -
  let ?n1 = "net2"
  let ?qp1 = "qp_0_8\<lparr>rid := 2\<rparr>"
  have far: "ip_frag_queue_far cfg64 env_ok net1 qp_0_8 frag_16_empty = Inr (?n1, ?qp1)"
    by (simp add: qp_0_8_eq net1_def net2_def ip_frag_queue_far_def ip_frag_too_far_def example_defs
        Let_def)
  have mf: "\<not> frag_mf frag_16_empty"
    by (simp add: frag_mf_def IP_MF_def example_defs)
  have empty: "data frag_16_empty = []"
    by (simp add: example_defs)
  have off: "frag_offset frag_16_empty = 16"
    by (simp add: frag_offset_def IP_OFFSET_def example_defs)
  have ge: "\<not> frag_offset frag_16_empty < len ?qp1"
    by (simp add: off qp_0_8_eq)
  have lst: "INET_FRAG_LAST_IN \<in> flags ?qp1 \<longrightarrow> frag_offset frag_16_empty = len ?qp1"
    by (simp add: qp_0_8_eq)
  from empty_final_fragment_sets_length [OF far mf empty ge lst]
  show ?thesis
    by (simp add: off qp_0_8_eq insert_commute)
qed

subsection \<open>Conflicting declarations of the length\<close>

text \<open>
  C2, as amended. A final fragment (\<^verbatim>\<open>IP_MF\<close> clear) that reaches the checks of the
  length of a queue in which \<^verbatim>\<open>INET_FRAG_LAST_IN\<close> is set with another end, or whose
  recorded length exceeds the end of the fragment, is rejected with \<^verbatim>\<open>-EINVAL\<close> and
  freed. The queue is left as the checks found it: it is not killed.
\<close>

theorem conflicting_final_fragment_rejected:
  assumes "ip_frag_queue_far cfg orc n qp skb = Inr (n1, qp1)"
    and "\<not> frag_mf skb"
    and "frag_offset skb + skb_len skb < len qp1
         \<or> (INET_FRAG_LAST_IN \<in> flags qp1 \<and> frag_offset skb + skb_len skb \<noteq> len qp1)"
  shows "ip_frag_queue cfg orc n qp skb =
           \<lparr>ret = Inl EINVAL, skb_freed = True, net_out = n1, qp_out = qp1\<rparr>
         \<and> INET_FRAG_COMPLETE \<notin> flags qp1"
proof -
  from assms(2,3) have "ip_frag_queue_end qp1 skb = Inl (EINVAL, qp1)"
    by (auto simp: ip_frag_queue_end_def Let_def)
  then have "ip_frag_queue_insert orc qp1 skb = Inl (EINVAL, qp1)"
    by (simp add: ip_frag_queue_insert_def ip_frag_queue_range_def)
  with assms(1) ip_frag_queue_far_Inr(2) [OF assms(1)] show ?thesis
    by (simp add: ip_frag_queue_def)
qed

theorem conflicting_final_fragment_rejected_witness:
  "ip_frag_queue cfg64 env_ok net1 qp_8_16 frag_8_24 =
     \<lparr>ret = Inl EINVAL, skb_freed = True, net_out = net2, qp_out = qp_8_16\<lparr>rid := 2\<rparr>\<rparr>
   \<and> INET_FRAG_LAST_IN \<in> flags qp_8_16 \<and> len qp_8_16 = 16
   \<and> frag_offset frag_8_24 + skb_len frag_8_24 = 24
   \<and> INET_FRAG_COMPLETE \<notin> flags qp_8_16"
proof -
  have far: "ip_frag_queue_far cfg64 env_ok net1 qp_8_16 frag_8_24
             = Inr (net2, qp_8_16\<lparr>rid := 2\<rparr>)"
    by (simp add: qp_8_16_eq net1_def net2_def ip_frag_queue_far_def ip_frag_too_far_def
        example_defs Let_def)
  have mf: "\<not> frag_mf frag_8_24"
    by (simp add: frag_mf_def IP_MF_def example_defs)
  have e: "frag_offset frag_8_24 + skb_len frag_8_24 = 24"
    by (simp add: frag_offset_def skb_len_def IP_OFFSET_def example_defs)
  have c: "frag_offset frag_8_24 + skb_len frag_8_24 < len (qp_8_16\<lparr>rid := 2\<rparr>)
         \<or> (INET_FRAG_LAST_IN \<in> flags (qp_8_16\<lparr>rid := 2\<rparr>)
            \<and> frag_offset frag_8_24 + skb_len frag_8_24 \<noteq> len (qp_8_16\<lparr>rid := 2\<rparr>))"
    by (simp add: e qp_8_16_eq)
  from conflicting_final_fragment_rejected [OF far mf c] e show ?thesis
    by (simp add: qp_8_16_eq)
qed

text \<open>
  The claim as stated fails: after the final fragment of bytes 8 to 15, a second final
  fragment that ends at 24 is rejected and freed, but the queue is not killed, and the
  arrival of bytes 0 to 7 then completes the datagram of 16 bytes.
\<close>

theorem conflicting_length_counterexample:
  "map (\<lambda>r. (map_sum id data (ret r), skb_freed r, INET_FRAG_COMPLETE \<in> flags (qp_out r)))
     (ip_defrag_list cfg64 net0 (ip4_frag_init cfg64 True frag_8_16)
        [(env_ok, frag_8_16), (env_ok, frag_8_24), (env_ok, frag_0_8)])
   = [(Inl EINPROGRESS, False, False), (Inl EINVAL, True, False),
      (Inr [1, 2, 3, 4, 5, 6, 7, 8, 9, 10, 11, 12, 13, 14, 15, 16], False, True)]"
  by (simp add: run_defs)

subsection \<open>The condition of completion\<close>

text \<open>
  The fragment is refused on entry exactly when the queue is already complete or the
  too-far heuristic trips and \<^verbatim>\<open>ip_frag_reinit\<close> finds the timer gone.
\<close>

lemma ip_frag_queue_far_kill:
  "(\<exists>er n1 qp1. ip_frag_queue_far cfg orc n qp skb = Inl (er, n1, qp1))
     \<longleftrightarrow> INET_FRAG_COMPLETE \<in> flags qp
         \<or> (IPSKB_FRAG_COMPLETE \<notin> ipcb_flags skb \<and> fst (ip_frag_too_far cfg n qp)
            \<and> \<not> timer_pending orc)"
  by (cases rule: ip_frag_queue_far_cases
      [where cfg = cfg and orc = orc and n = n and qp = qp and skb = skb]) auto

text \<open>
  C3, as amended. \<^verbatim>\<open>ip_frag_reasm\<close> is called, and a datagram can be returned, exactly
  when the insertion has linked the fragment and the queue then has the flags
  \<^verbatim>\<open>INET_FRAG_FIRST_IN | INET_FRAG_LAST_IN\<close> and \<^verbatim>\<open>meat == len\<close>: the result is then
  the result of the gluing, which marks the queue complete. A linked fragment in any
  other state of the flags and lengths returns \<^verbatim>\<open>-EINPROGRESS\<close> and leaves the queue
  open. A fragment refused on entry (\<^verbatim>\<open>-ENOENT\<close>, \<^verbatim>\<open>-ETIMEDOUT\<close>) or rejected by the
  insertion (\<^verbatim>\<open>-EINVAL\<close>, \<^verbatim>\<open>-ENOMEM\<close>) is freed and its error returned with the queue
  as the refusal or the rejection left it, without gluing; a rejected insertion leaves
  the queue open. Every returned datagram is the result of the gluing of a queue in
  that state and leaves the queue with exactly these flags, \<^verbatim>\<open>INET_FRAG_COMPLETE\<close>
  added, and \<^verbatim>\<open>meat == len\<close>. After the call the queue has \<^verbatim>\<open>INET_FRAG_COMPLETE\<close>
  exactly when it had it before, or the too-far heuristic tripped and the
  reinitialisation failed, which kills the queue, or the gluing was called.
\<close>

theorem gluing_exactly_on_completion:
  "(let r = ip_frag_queue cfg orc n qp skb in
     (\<forall>er n1 qp1.
        ip_frag_queue_far cfg orc n qp skb = Inl (er, n1, qp1) \<longrightarrow>
        r = \<lparr>ret = Inl er, skb_freed = True, net_out = n1, qp_out = qp1\<rparr>
        \<and> (er = ENOENT \<or> er = ETIMEDOUT))
     \<and> (\<forall>n1 qp1 er qp2.
        ip_frag_queue_far cfg orc n qp skb = Inr (n1, qp1) \<longrightarrow>
        ip_frag_queue_insert orc qp1 skb = Inl (er, qp2) \<longrightarrow>
        r = \<lparr>ret = Inl er, skb_freed = True, net_out = n1, qp_out = qp2\<rparr>
        \<and> (er = EINVAL \<or> er = ENOMEM) \<and> INET_FRAG_COMPLETE \<notin> flags qp2)
     \<and> (\<forall>n1 qp1 qp2 skb2 prev.
        ip_frag_queue_far cfg orc n qp skb = Inr (n1, qp1) \<longrightarrow>
        ip_frag_queue_insert orc qp1 skb = Inr (qp2, skb2, prev) \<longrightarrow>
        (if flags qp2 = {INET_FRAG_FIRST_IN, INET_FRAG_LAST_IN} \<and> meat qp2 = len qp2
         then (ret r, net_out r, qp_out r) = ip_frag_reasm cfg orc n1 qp2 prev (dev skb)
              \<and> \<not> skb_freed r \<and> INET_FRAG_COMPLETE \<in> flags (qp_out r)
         else r = \<lparr>ret = Inl EINPROGRESS, skb_freed = False, net_out = n1, qp_out = qp2\<rparr>
              \<and> INET_FRAG_COMPLETE \<notin> flags (qp_out r)))
     \<and> (\<forall>d. ret r = Inr d \<longrightarrow>
            flags (qp_out r) = {INET_FRAG_FIRST_IN, INET_FRAG_LAST_IN, INET_FRAG_COMPLETE}
            \<and> meat (qp_out r) = len (qp_out r)
            \<and> (\<exists>n1 qp1 qp2 skb2 prev n3 qp3.
                  ip_frag_queue_far cfg orc n qp skb = Inr (n1, qp1)
                  \<and> ip_frag_queue_insert orc qp1 skb = Inr (qp2, skb2, prev)
                  \<and> flags qp2 = {INET_FRAG_FIRST_IN, INET_FRAG_LAST_IN} \<and> meat qp2 = len qp2
                  \<and> ip_frag_reasm cfg orc n1 qp2 prev (dev skb) = (Inr d, n3, qp3)))
     \<and> (skb_freed r \<longrightarrow> (\<exists>er. ret r = Inl er \<and> er \<noteq> EINPROGRESS))
     \<and> (INET_FRAG_COMPLETE \<in> flags (qp_out r) \<longleftrightarrow>
            INET_FRAG_COMPLETE \<in> flags qp
          \<or> (IPSKB_FRAG_COMPLETE \<notin> ipcb_flags skb \<and> fst (ip_frag_too_far cfg n qp)
             \<and> \<not> timer_pending orc)
          \<or> (\<exists>n1 qp1 qp2 skb2 prev.
                ip_frag_queue_far cfg orc n qp skb = Inr (n1, qp1)
                \<and> ip_frag_queue_insert orc qp1 skb = Inr (qp2, skb2, prev)
                \<and> flags qp2 = {INET_FRAG_FIRST_IN, INET_FRAG_LAST_IN}
                \<and> meat qp2 = len qp2)))"
proof (cases rule: ip_frag_queue_cases
    [where cfg = cfg and orc = orc and n = n and qp = qp and skb = skb])
  case (far_err er n1 qp1)
  from far_err(1) have k: "INET_FRAG_COMPLETE \<in> flags qp
         \<or> (IPSKB_FRAG_COMPLETE \<notin> ipcb_flags skb \<and> fst (ip_frag_too_far cfg n qp)
            \<and> \<not> timer_pending orc)"
    using ip_frag_queue_far_kill [of cfg orc n qp skb] by blast
  from ip_frag_queue_far_Inl(6,7) [OF far_err(1)] far_err k show ?thesis
    by (auto simp: Let_def)
next
  case (insert_err n1 qp1 er qp2)
  from insert_err(1) have k: "\<not> (INET_FRAG_COMPLETE \<in> flags qp
         \<or> (IPSKB_FRAG_COMPLETE \<notin> ipcb_flags skb \<and> fst (ip_frag_too_far cfg n qp)
            \<and> \<not> timer_pending orc))"
    using ip_frag_queue_far_kill [of cfg orc n qp skb] by auto
  from ip_frag_queue_far_Inr(2) [OF insert_err(1)]
    ip_frag_queue_insert_Inl_frame(1) [OF insert_err(2)]
  have nc: "INET_FRAG_COMPLETE \<notin> flags qp2" by auto
  from ip_frag_queue_insert_errno [OF insert_err(2)] insert_err k nc show ?thesis
    by (auto simp: Let_def)
next
  case (pending n1 qp1 qp2 skb2 prev)
  from pending(1) have k: "\<not> (INET_FRAG_COMPLETE \<in> flags qp
         \<or> (IPSKB_FRAG_COMPLETE \<notin> ipcb_flags skb \<and> fst (ip_frag_too_far cfg n qp)
            \<and> \<not> timer_pending orc))"
    using ip_frag_queue_far_kill [of cfg orc n qp skb] by auto
  from ip_frag_queue_far_Inr(2) [OF pending(1)]
    ip_frag_queue_insert_Inr_frame(1) [OF pending(2)]
  have "INET_FRAG_COMPLETE \<notin> flags qp2" by auto
  with pending k show ?thesis
    by (auto simp: Let_def)
next
  case (reasm n1 qp1 qp2 skb2 prev r' n3 qp3)
  from ip_frag_reasm_frame [OF reasm(5)] reasm show ?thesis
    by (auto simp: Let_def insert_commute)
qed

theorem gluing_exactly_on_completion_witness:
  "ip_frag_queue_far cfg64 env_ok net1 qp_0_8 frag_8_16 = Inr (net2, qp_0_8\<lparr>rid := 2\<rparr>)
   \<and> (\<exists>qp2 skb2 prev.
        ip_frag_queue_insert env_ok (qp_0_8\<lparr>rid := 2\<rparr>) frag_8_16 = Inr (qp2, skb2, prev)
        \<and> flags qp2 = {INET_FRAG_FIRST_IN, INET_FRAG_LAST_IN} \<and> meat qp2 = 16 \<and> len qp2 = 16
        \<and> (ret (ip_frag_queue cfg64 env_ok net1 qp_0_8 frag_8_16),
            net_out (ip_frag_queue cfg64 env_ok net1 qp_0_8 frag_8_16),
            qp_out (ip_frag_queue cfg64 env_ok net1 qp_0_8 frag_8_16))
           = ip_frag_reasm cfg64 env_ok net2 qp2 prev (dev frag_8_16))
   \<and> ip_frag_queue_far cfg64 env_ok net1 qp_0_8 frag_16_empty = Inr (net2, qp_0_8\<lparr>rid := 2\<rparr>)
   \<and> ip_frag_queue_insert env_ok (qp_0_8\<lparr>rid := 2\<rparr>) frag_16_empty
       = Inl (EINVAL, qp_0_8\<lparr>flags := {INET_FRAG_FIRST_IN, INET_FRAG_LAST_IN}, len := 16,
                              rid := 2\<rparr>)
   \<and> ip_frag_queue cfg64 env_ok net1 qp_0_8 frag_16_empty =
       \<lparr>ret = Inl EINVAL, skb_freed = True, net_out = net2,
        qp_out = qp_0_8\<lparr>flags := {INET_FRAG_FIRST_IN, INET_FRAG_LAST_IN}, len := 16, rid := 2\<rparr>\<rparr>
   \<and> ip_frag_queue_far cfg1 (env_ok\<lparr>timer_pending := False\<rparr>) net2 qp_0_8 frag_8_16
       = Inl (ETIMEDOUT, \<lparr>peer_rid = 3, reasmfails = 1, reasmoks = 0\<rparr>,
              qp_0_8\<lparr>flags := {INET_FRAG_FIRST_IN, INET_FRAG_COMPLETE}, rid := 3\<rparr>)
   \<and> ip_frag_queue cfg1 (env_ok\<lparr>timer_pending := False\<rparr>) net2 qp_0_8 frag_8_16 =
       \<lparr>ret = Inl ETIMEDOUT, skb_freed = True,
        net_out = \<lparr>peer_rid = 3, reasmfails = 1, reasmoks = 0\<rparr>,
        qp_out = qp_0_8\<lparr>flags := {INET_FRAG_FIRST_IN, INET_FRAG_COMPLETE}, rid := 3\<rparr>\<rparr>"
proof -
  let ?qp1 = "qp_0_8\<lparr>rid := 2\<rparr>"
  let ?qe = "qp_0_8\<lparr>flags := {INET_FRAG_FIRST_IN, INET_FRAG_LAST_IN}, len := 16, rid := 2\<rparr>"
  let ?orc = "env_ok\<lparr>timer_pending := False\<rparr>"
  let ?n3 = "\<lparr>peer_rid = 3, reasmfails = 1, reasmoks = 0\<rparr>"
  let ?qk = "qp_0_8\<lparr>flags := {INET_FRAG_FIRST_IN, INET_FRAG_COMPLETE}, rid := 3\<rparr>"
  have far: "ip_frag_queue_far cfg64 env_ok net1 qp_0_8 frag_8_16 = Inr (net2, ?qp1)"
    by (simp add: qp_0_8_eq net1_def net2_def ip_frag_queue_far_def ip_frag_too_far_def
        example_defs Let_def)
  obtain qp2 skb2 prev where
    ins: "ip_frag_queue_insert env_ok ?qp1 frag_8_16 = Inr (qp2, skb2, prev)"
    and st: "flags qp2 = {INET_FRAG_FIRST_IN, INET_FRAG_LAST_IN}" "meat qp2 = 16" "len qp2 = 16"
    by (simp add: qp_0_8_eq run_defs)
  have far_e: "ip_frag_queue_far cfg64 env_ok net1 qp_0_8 frag_16_empty = Inr (net2, ?qp1)"
    by (simp add: qp_0_8_eq net1_def net2_def ip_frag_queue_far_def ip_frag_too_far_def
        example_defs Let_def)
  have ins_e: "ip_frag_queue_insert env_ok ?qp1 frag_16_empty = Inl (EINVAL, ?qe)"
    by (simp add: qp_0_8_eq run_defs)
  have far_k: "ip_frag_queue_far cfg1 ?orc net2 qp_0_8 frag_8_16 = Inl (ETIMEDOUT, ?n3, ?qk)"
    by (simp add: qp_0_8_eq net2_def ip_frag_queue_far_def ip_frag_too_far_def
        ip_frag_reinit_def ipq_kill_def example_defs Let_def insert_commute)
  from gluing_exactly_on_completion [of cfg64 env_ok net1 qp_0_8 frag_8_16] far ins st
  have 1: "(ret (ip_frag_queue cfg64 env_ok net1 qp_0_8 frag_8_16),
         net_out (ip_frag_queue cfg64 env_ok net1 qp_0_8 frag_8_16),
         qp_out (ip_frag_queue cfg64 env_ok net1 qp_0_8 frag_8_16))
        = ip_frag_reasm cfg64 env_ok net2 qp2 prev (dev frag_8_16)"
    by (simp add: Let_def)
  from gluing_exactly_on_completion [of cfg64 env_ok net1 qp_0_8 frag_16_empty] far_e ins_e
  have 2: "ip_frag_queue cfg64 env_ok net1 qp_0_8 frag_16_empty =
       \<lparr>ret = Inl EINVAL, skb_freed = True, net_out = net2, qp_out = ?qe\<rparr>"
    by (simp add: Let_def)
  from gluing_exactly_on_completion [of cfg1 ?orc net2 qp_0_8 frag_8_16] far_k
  have 3: "ip_frag_queue cfg1 ?orc net2 qp_0_8 frag_8_16 =
       \<lparr>ret = Inl ETIMEDOUT, skb_freed = True, net_out = ?n3, qp_out = ?qk\<rparr>"
    by (simp add: Let_def)
  from far ins st 1 far_e ins_e 2 far_k 3 show ?thesis by blast
qed

text \<open>
  The claim as stated fails for an insertion that is rejected. The queue holds bytes 0
  to 7 and the length 8; an empty final fragment at offset 8 sets
  \<^verbatim>\<open>INET_FRAG_LAST_IN\<close> and is then rejected, so after this insertion the flags are
  \<^verbatim>\<open>INET_FRAG_FIRST_IN | INET_FRAG_LAST_IN\<close> and \<^verbatim>\<open>meat == len\<close>, but the gluing was
  not called and the queue is not complete.
\<close>

theorem gluing_after_rejection_counterexample:
  "ip_frag_queue cfg64 env_ok net1 qp_0_8 frag_8_empty =
     \<lparr>ret = Inl EINVAL, skb_freed = True, net_out = net2,
      qp_out = qp_0_8\<lparr>flags := {INET_FRAG_FIRST_IN, INET_FRAG_LAST_IN}, rid := 2\<rparr>\<rparr>
   \<and> meat qp_0_8 = 8 \<and> len qp_0_8 = 8"
  by (simp add: qp_0_8_eq frag_8_empty_def run_defs)

subsection \<open>The too-far heuristic\<close>

text \<open>
  C5, as amended. With a peer and a nonzero maximum, \<^verbatim>\<open>ip_frag_too_far\<close> increments
  the peer's counter, stores the new value in the queue, and trips exactly when the
  queue holds a fragment and the new value exceeds by more than the maximum the value
  stored at the previous attempt on this queue (zero in a new queue), in arithmetic
  modulo \<open>2 ^ 32\<close>. With no peer or a zero maximum it never trips and changes
  nothing. \<^verbatim>\<open>ip_frag_queue\<close> consults it, and so advances the counter by one, exactly
  when the queue is not complete and the buffer is not flagged
  \<^verbatim>\<open>IPSKB_FRAG_COMPLETE\<close>.
\<close>

theorem too_far_counts_from_last_attempt:
  "(peer qp \<and> sysctl_ipfrag_max_dist cfg \<noteq> 0 \<longrightarrow>
      ip_frag_too_far cfg n qp =
        (fragments qp \<noteq> [] \<and> peer_rid n + 1 - rid qp > sysctl_ipfrag_max_dist cfg,
         n\<lparr>peer_rid := peer_rid n + 1,
            reasmfails := (if fragments qp \<noteq> []
                              \<and> peer_rid n + 1 - rid qp > sysctl_ipfrag_max_dist cfg
                           then reasmfails n + 1 else reasmfails n)\<rparr>,
         qp\<lparr>rid := peer_rid n + 1\<rparr>))
   \<and> (\<not> peer qp \<or> sysctl_ipfrag_max_dist cfg = 0 \<longrightarrow>
        ip_frag_too_far cfg n qp = (False, n, qp))
   \<and> (let r = ip_frag_queue cfg orc n qp skb in
        if INET_FRAG_COMPLETE \<notin> flags qp \<and> IPSKB_FRAG_COMPLETE \<notin> ipcb_flags skb
           \<and> peer qp \<and> sysctl_ipfrag_max_dist cfg \<noteq> 0
        then peer_rid (net_out r) = peer_rid n + 1 \<and> rid (qp_out r) = peer_rid n + 1
        else peer_rid (net_out r) = peer_rid n \<and> rid (qp_out r) = rid qp)"
proof -
  have a: "peer qp \<and> sysctl_ipfrag_max_dist cfg \<noteq> 0 \<longrightarrow>
      ip_frag_too_far cfg n qp =
        (fragments qp \<noteq> [] \<and> peer_rid n + 1 - rid qp > sysctl_ipfrag_max_dist cfg,
         n\<lparr>peer_rid := peer_rid n + 1,
            reasmfails := (if fragments qp \<noteq> []
                              \<and> peer_rid n + 1 - rid qp > sysctl_ipfrag_max_dist cfg
                           then reasmfails n + 1 else reasmfails n)\<rparr>,
         qp\<lparr>rid := peer_rid n + 1\<rparr>)"
    by (simp add: ip_frag_too_far_def Let_def)
  have b: "\<not> peer qp \<or> sysctl_ipfrag_max_dist cfg = 0 \<longrightarrow>
        ip_frag_too_far cfg n qp = (False, n, qp)"
    by (auto simp: ip_frag_too_far_def Let_def)
  have far: "(case ip_frag_queue_far cfg orc n qp skb of
                Inl (er, n1, qp1) \<Rightarrow> (peer_rid n1, rid qp1)
              | Inr (n1, qp1) \<Rightarrow> (peer_rid n1, rid qp1))
             = (if INET_FRAG_COMPLETE \<notin> flags qp \<and> IPSKB_FRAG_COMPLETE \<notin> ipcb_flags skb
                   \<and> peer qp \<and> sysctl_ipfrag_max_dist cfg \<noteq> 0
                then (peer_rid n + 1, peer_rid n + 1) else (peer_rid n, rid qp))"
  proof (cases rule: ip_frag_queue_far_cases
      [where cfg = cfg and orc = orc and n = n and qp = qp and skb = skb])
    case complete
    then show ?thesis by simp
  next
    case skip
    then show ?thesis by simp
  next
    case (near n1 qp1)
    then show ?thesis
      by (auto simp: ip_frag_too_far_def Let_def split: if_splits)
  next
    case (killed n1 qp1)
    then show ?thesis
      by (auto simp: ip_frag_too_far_def Let_def ipq_kill_def split: if_splits)
  next
    case (reinit n1 qp1)
    then show ?thesis
      by (auto simp: ip_frag_too_far_def Let_def split: if_splits)
  qed
  have c: "(let r = ip_frag_queue cfg orc n qp skb in
        if INET_FRAG_COMPLETE \<notin> flags qp \<and> IPSKB_FRAG_COMPLETE \<notin> ipcb_flags skb
           \<and> peer qp \<and> sysctl_ipfrag_max_dist cfg \<noteq> 0
        then peer_rid (net_out r) = peer_rid n + 1 \<and> rid (qp_out r) = peer_rid n + 1
        else peer_rid (net_out r) = peer_rid n \<and> rid (qp_out r) = rid qp)"
  proof (cases rule: ip_frag_queue_cases
      [where cfg = cfg and orc = orc and n = n and qp = qp and skb = skb])
    case (far_err er n1 qp1)
    with far show ?thesis by (simp add: Let_def split: if_splits)
  next
    case (insert_err n1 qp1 er qp2)
    with far ip_frag_queue_insert_Inl_frame(2) [OF insert_err(2)] show ?thesis
      by (simp add: Let_def split: if_splits)
  next
    case (pending n1 qp1 qp2 skb2 prev)
    with far ip_frag_queue_insert_Inr_frame(2) [OF pending(2)] show ?thesis
      by (simp add: Let_def split: if_splits)
  next
    case (reasm n1 qp1 qp2 skb2 prev r' n3 qp3)
    with far ip_frag_queue_insert_Inr_frame(2) [OF reasm(2)]
      ip_frag_reasm_frame(1,2) [OF reasm(5)] show ?thesis
      by (simp add: Let_def split: if_splits)
  qed
  from a b c show ?thesis by blast
qed

theorem too_far_counts_from_last_attempt_witness:
  "ip_frag_too_far cfg1 net1 (qp_0_8\<lparr>rid := 1\<rparr>) = (False, net2, qp_0_8\<lparr>rid := 2\<rparr>)
   \<and> ip_frag_too_far (cfg1\<lparr>sysctl_ipfrag_max_dist := 0\<rparr>) net1 qp_0_8 = (False, net1, qp_0_8)
   \<and> peer_rid (net_out (ip_frag_queue cfg1 env_ok net1 qp_0_8 frag_8_16)) = 2
   \<and> peer_rid (net_out (ip_frag_queue cfg1 env_ok net1 qp_0_8 frag_0_8_out)) = 1"
  using too_far_counts_from_last_attempt [of "qp_0_8\<lparr>rid := 1\<rparr>" cfg1 net1 env_ok frag_8_16]
    too_far_counts_from_last_attempt
      [of qp_0_8 "cfg1\<lparr>sysctl_ipfrag_max_dist := 0\<rparr>" net1 env_ok frag_8_16]
    too_far_counts_from_last_attempt [of qp_0_8 cfg1 net1 env_ok frag_8_16]
    too_far_counts_from_last_attempt [of qp_0_8 cfg1 net1 env_ok frag_0_8_out]
  by (simp add: qp_0_8_eq net1_def net2_def cfg1_def example_defs Let_def)

text \<open>
  The claim as stated fails. With a maximum of 1 and the peer's counter at 0 when the
  queue is created, the second attempt finds a fragment in the queue and the counter 2
  beyond its value at creation, yet the heuristic does not trip (no failure is
  counted): it compares with the value 1 stored by the first attempt. The third
  attempt, a buffer flagged \<^verbatim>\<open>IPSKB_FRAG_COMPLETE\<close>, leaves the counter at 2.
\<close>

theorem too_far_since_creation_counterexample:
  "map (\<lambda>r. (map_sum id data (ret r), peer_rid (net_out r), rid (qp_out r),
             reasmfails (net_out r), fragments (qp_out r) \<noteq> []))
     (ip_defrag_list cfg1 net0 (ip4_frag_init cfg1 True frag_0_8)
        [(env_ok, frag_0_8), (env_ok, frag_16_empty), (env_ok, frag_0_8_out)])
   = [(Inl EINPROGRESS, 1, 1, 0, True), (Inl EINVAL, 2, 2, 0, True),
      (Inl EINPROGRESS, 2, 2, 0, True)]
   \<and> peer_rid net0 = 0 \<and> peer (ip4_frag_init cfg1 True frag_0_8)
   \<and> (2 :: u32) - peer_rid net0 > sysctl_ipfrag_max_dist cfg1"
  by (simp add: run_defs)subsection \<open>The oversized datagram\<close>

text \<open>
  C7, as amended. For a queue that holds a fragment, the gluing fails with \<^verbatim>\<open>-E2BIG\<close>
  exactly when the union of the ECN bits is valid, the clone of the buffer (needed
  when \<^verbatim>\<open>prev\<close> is not NULL) has succeeded, and the header length of the first fragment
  plus the length of the queue exceeds 65535. It then counts a reassembly failure,
  marks the queue complete and returns no datagram. \<^verbatim>\<open>ip_frag_queue\<close> returns \<^verbatim>\<open>-E2BIG\<close>
  only from such a gluing.
\<close>

theorem oversized_gluing:
  assumes "fragments qp \<noteq> []"
  shows "(fst (ip_frag_reasm cfg orc n qp prev dv) = Inl E2BIG \<longleftrightarrow>
            ip_frag_ecn_table cfg (ecn qp) \<noteq> 0xff \<and> (prev = None \<or> clone_ok orc)
            \<and> int (ihl (hd (fragments qp))) + len qp > 65535)
       \<and> (fst (ip_frag_reasm cfg orc n qp prev dv) = Inl E2BIG \<longrightarrow>
            ip_frag_reasm cfg orc n qp prev dv
              = (Inl E2BIG, n\<lparr>reasmfails := reasmfails n + 1\<rparr>, ipq_kill qp))
       \<and> (ret (ip_frag_queue cfg orc n qp skb) = Inl E2BIG \<longrightarrow>
            \<not> skb_freed (ip_frag_queue cfg orc n qp skb)
            \<and> INET_FRAG_COMPLETE \<in> flags (qp_out (ip_frag_queue cfg orc n qp skb))
            \<and> 0 < reasmfails (net_out (ip_frag_queue cfg orc n qp skb)))"
proof -
  have a: "(fst (ip_frag_reasm cfg orc n qp prev dv) = Inl E2BIG \<longleftrightarrow>
            ip_frag_ecn_table cfg (ecn qp) \<noteq> 0xff \<and> (prev = None \<or> clone_ok orc)
            \<and> int (ihl (hd (fragments qp))) + len qp > 65535)
       \<and> (fst (ip_frag_reasm cfg orc n qp prev dv) = Inl E2BIG \<longrightarrow>
            ip_frag_reasm cfg orc n qp prev dv
              = (Inl E2BIG, n\<lparr>reasmfails := reasmfails n + 1\<rparr>, ipq_kill qp))"
    by (cases rule: ip_frag_reasm_cases
        [where cfg = cfg and orc = orc and n = n and qp = qp and prev = prev and dv = dv])
       (use assms in \<open>auto simp: reasm_fail_def\<close>)
  have b: "ret (ip_frag_queue cfg orc n qp skb) = Inl E2BIG \<longrightarrow>
            \<not> skb_freed (ip_frag_queue cfg orc n qp skb)
            \<and> INET_FRAG_COMPLETE \<in> flags (qp_out (ip_frag_queue cfg orc n qp skb))
            \<and> 0 < reasmfails (net_out (ip_frag_queue cfg orc n qp skb))"
  proof (cases rule: ip_frag_queue_cases
      [where cfg = cfg and orc = orc and n = n and qp = qp and skb = skb])
    case (far_err er n1 qp1)
    with ip_frag_queue_far_Inl(7) [OF far_err(1)] show ?thesis by auto
  next
    case (insert_err n1 qp1 er qp2)
    with ip_frag_queue_insert_errno [OF insert_err(2)] show ?thesis by auto
  next
    case (pending n1 qp1 qp2 skb2 prev')
    then show ?thesis by simp
  next
    case (reasm n1 qp1 qp2 skb2 prev' r n3 qp3)
    have "r = Inl E2BIG \<longrightarrow> INET_FRAG_COMPLETE \<in> flags qp3 \<and> 0 < reasmfails n3"
      by (cases rule: ip_frag_reasm_cases
          [where cfg = cfg and orc = orc and n = n1 and qp = qp2 and prev = prev'
            and dv = "dev skb"])
         (use reasm(5) in \<open>auto simp: reasm_fail_def ipq_kill_def\<close>)
    with reasm(6) show ?thesis by simp
  qed
  from a b show ?thesis by blast
qed

theorem oversized_gluing_witness:
  "ip_frag_reasm cfg64 env_ok net2 qp_big (Some (frag_big_0\<lparr>dev := None\<rparr>)) (Some 1)
     = (Inl E2BIG, net2\<lparr>reasmfails := 1\<rparr>, ipq_kill qp_big)
   \<and> int (ihl (hd (fragments qp_big))) + len qp_big = 65556
   \<and> fst (ip_frag_reasm cfg64 env_ok net1 qp_0_8 None (Some 1)) \<noteq> Inl E2BIG"
proof -
  have ne: "fragments qp_big \<noteq> []" "fragments qp_0_8 \<noteq> []"
    by (simp_all add: qp_big_def qp_0_8_eq)
  have big: "ip_frag_ecn_table cfg64 (ecn qp_big) \<noteq> 0xff" "clone_ok env_ok"
    "int (ihl (hd (fragments qp_big))) + len qp_big = 65556"
    by (simp_all add: qp_big_def example_defs)
  have small: "\<not> int (ihl (hd (fragments qp_0_8))) + len qp_0_8 > 65535"
    by (simp add: qp_0_8_eq example_defs)
  from oversized_gluing [OF ne(1), of cfg64 env_ok net2 "Some (frag_big_0\<lparr>dev := None\<rparr>)"
      "Some 1" frag_0_8] big
  have "ip_frag_reasm cfg64 env_ok net2 qp_big (Some (frag_big_0\<lparr>dev := None\<rparr>)) (Some 1)
     = (Inl E2BIG, net2\<lparr>reasmfails := reasmfails net2 + 1\<rparr>, ipq_kill qp_big)"
    by simp
  moreover from oversized_gluing [OF ne(2), of cfg64 env_ok net1 None "Some 1" frag_0_8] small
  have "fst (ip_frag_reasm cfg64 env_ok net1 qp_0_8 None (Some 1)) \<noteq> Inl E2BIG"
    by simp
  ultimately show ?thesis using big(3) by (simp add: net2_def)
qed

text \<open>
  The claim as stated fails. A Not-ECT fragment of bytes 0 to 65511 and a final
  fragment of bytes 65512 to 65535 marked CE complete a queue of length 65536; with
  the header of 20 bytes that exceeds 65535, yet the gluing fails with \<^verbatim>\<open>-EINVAL\<close>,
  because the invalid union of the ECN bits is found first.
\<close>

theorem oversized_gluing_counterexample:
  "map (\<lambda>r. (map_sum id data (ret r), len (qp_out r), meat (qp_out r), flags (qp_out r),
             map ihl (fragments (qp_out r))))
     (ip_defrag_list cfg64 net0 (ip4_frag_init cfg64 True frag_big_0)
        [(env_ok, frag_big_0), (env_ok, frag_big_last)])
   = [(Inl EINPROGRESS, 65512, 65512, {INET_FRAG_FIRST_IN}, [20]),
      (Inl EINVAL, 65536, 65536, {INET_FRAG_FIRST_IN, INET_FRAG_LAST_IN, INET_FRAG_COMPLETE},
       [20, 20])]"
  by (simp add: run_defs)

subsection \<open>Reinitialisation\<close>

text \<open>
  C10. When the timer is pending, \<^verbatim>\<open>ip_frag_reinit\<close> succeeds and resets the flags, the
  length, \<^verbatim>\<open>meat\<close>, the chain of fragments, the interface and the ECN union; whatever
  its result, it leaves \<^verbatim>\<open>max_size\<close>, \<^verbatim>\<open>max_df_size\<close> and \<^verbatim>\<open>rid\<close> as they are.
  Consequently the sizes seen before a reinitialisation can decide \<^verbatim>\<open>IP_DF\<close> of a
  datagram glued after it: a queue that received bytes 16 to 23 with \<^verbatim>\<open>IP_DF\<close>, was
  reinitialised by the too-far heuristic, and then received bytes 0 to 15 in two
  fragments without \<^verbatim>\<open>IP_DF\<close> returns those 16 bytes with \<^verbatim>\<open>IP_DF\<close> set, while a new
  queue returns them without.
\<close>

theorem reinit_keeps_largest_sizes:
  "(timer_pending orc \<longrightarrow>
      ip_frag_reinit orc qp =
        (None, qp\<lparr>flags := {}, len := 0, meat := 0, fragments := [], iif := 0, ecn := 0\<rparr>))
   \<and> max_size (snd (ip_frag_reinit orc qp)) = max_size qp
   \<and> max_df_size (snd (ip_frag_reinit orc qp)) = max_df_size qp
   \<and> rid (snd (ip_frag_reinit orc qp)) = rid qp
   \<and> map (\<lambda>r. map_sum id (\<lambda>d. (frag_df d, data d)) (ret r))
        (ip_defrag_list cfg64 net0 (ip4_frag_init cfg64 True frag_df_16_24)
           [(env_ok, frag_df_16_24), (env_far, frag_0_8), (env_ok, frag_8_16)])
      = [Inl EINPROGRESS, Inl EINPROGRESS,
         Inr (True, [1, 2, 3, 4, 5, 6, 7, 8, 9, 10, 11, 12, 13, 14, 15, 16])]
   \<and> map (\<lambda>r. map_sum id (\<lambda>d. (frag_df d, data d)) (ret r))
        (ip_defrag_list cfg64 net0 (ip4_frag_init cfg64 True frag_0_8)
           [(env_ok, frag_0_8), (env_ok, frag_8_16)])
      = [Inl EINPROGRESS, Inr (False, [1, 2, 3, 4, 5, 6, 7, 8, 9, 10, 11, 12, 13, 14, 15, 16])]"
proof -
  have "timer_pending orc \<longrightarrow>
      ip_frag_reinit orc qp =
        (None, qp\<lparr>flags := {}, len := 0, meat := 0, fragments := [], iif := 0, ecn := 0\<rparr>)"
    by (simp add: ip_frag_reinit_def reinit_fields_def)
  moreover have "max_size (snd (ip_frag_reinit orc qp)) = max_size qp"
    "max_df_size (snd (ip_frag_reinit orc qp)) = max_df_size qp"
    "rid (snd (ip_frag_reinit orc qp)) = rid qp"
    by (simp_all add: ip_frag_reinit_def)
  moreover have "map (\<lambda>r. map_sum id (\<lambda>d. (frag_df d, data d)) (ret r))
        (ip_defrag_list cfg64 net0 (ip4_frag_init cfg64 True frag_df_16_24)
           [(env_ok, frag_df_16_24), (env_far, frag_0_8), (env_ok, frag_8_16)])
      = [Inl EINPROGRESS, Inl EINPROGRESS,
         Inr (True, [1, 2, 3, 4, 5, 6, 7, 8, 9, 10, 11, 12, 13, 14, 15, 16])]"
    by (simp add: run_defs)
  moreover have "map (\<lambda>r. map_sum id (\<lambda>d. (frag_df d, data d)) (ret r))
        (ip_defrag_list cfg64 net0 (ip4_frag_init cfg64 True frag_0_8)
           [(env_ok, frag_0_8), (env_ok, frag_8_16)])
      = [Inl EINPROGRESS, Inr (False, [1, 2, 3, 4, 5, 6, 7, 8, 9, 10, 11, 12, 13, 14, 15, 16])]"
    by (simp add: run_defs)
  ultimately show ?thesis by blast
qed

theorem reinit_keeps_largest_sizes_witness:
  "timer_pending env_ok
   \<and> ip_frag_reinit env_ok qp_0_8 =
       (None, \<lparr>flags = {}, len = 0, meat = 0, fragments = [], max_size = 28, ecn = 0,
               max_df_size = 0, iif = 0, rid = 1, peer = True\<rparr>)
   \<and> max_size qp_0_8 = 28 \<and> rid qp_0_8 = 1"
  using reinit_keeps_largest_sizes [of env_ok qp_0_8]
  by (simp add: qp_0_8_eq env_ok_def)

subsection \<open>The chain of fragments\<close>

text \<open>
  C4, as amended. A new queue holds a well-formed chain (\<open>frag_inv\<close>): every fragment
  is non-empty and ends no later than each fragment behind it starts, and \<^verbatim>\<open>meat\<close> is
  the sum of their lengths. Every call of \<^verbatim>\<open>ip_frag_queue\<close> on such a queue that does
  not return a datagram leaves such a queue, with the offsets strictly increasing; so
  does the insertion itself, with its cuts and deletions, in the queue it hands to the
  check of completion. When the gluing succeeds, the chain has moved to the datagram:
  the queue holds no fragment and \<^verbatim>\<open>meat\<close> stays equal to the length.
\<close>

theorem insertion_keeps_fragments_sorted:
  "frag_inv (ip4_frag_init cfg getpeer_ok skb0)
   \<and> (frag_inv qp \<longrightarrow>
        (let r = ip_frag_queue cfg orc n qp skb in
           (case ret r of
              Inl er \<Rightarrow>
                frag_inv (qp_out r)
                \<and> sorted_wrt (\<lambda>f g. cb_offset f < cb_offset g) (fragments (qp_out r))
            | Inr d \<Rightarrow> fragments (qp_out r) = [] \<and> meat (qp_out r) = len (qp_out r))
           \<and> (\<forall>n1 qp1 qp2 skb2 prev.
                  ip_frag_queue_far cfg orc n qp skb = Inr (n1, qp1) \<longrightarrow>
                  ip_frag_queue_insert orc qp1 skb = Inr (qp2, skb2, prev) \<longrightarrow>
                  frag_inv qp2
                  \<and> sorted_wrt (\<lambda>f g. cb_offset f < cb_offset g) (fragments qp2))))"
proof -
  have base: "frag_inv (ip4_frag_init cfg getpeer_ok skb0)"
    by (simp add: frag_inv_def ip4_frag_init_def)
  have st: "sorted_wrt (\<lambda>f g. cb_offset f < cb_offset g) (fragments q)" if "frag_inv q" for q
    using that by (simp add: frag_inv_def frags_ok_strict)
  have step: "(let r = ip_frag_queue cfg orc n qp skb in
           (case ret r of
              Inl er \<Rightarrow>
                frag_inv (qp_out r)
                \<and> sorted_wrt (\<lambda>f g. cb_offset f < cb_offset g) (fragments (qp_out r))
            | Inr d \<Rightarrow> fragments (qp_out r) = [] \<and> meat (qp_out r) = len (qp_out r))
           \<and> (\<forall>n1 qp1 qp2 skb2 prev.
                  ip_frag_queue_far cfg orc n qp skb = Inr (n1, qp1) \<longrightarrow>
                  ip_frag_queue_insert orc qp1 skb = Inr (qp2, skb2, prev) \<longrightarrow>
                  frag_inv qp2
                  \<and> sorted_wrt (\<lambda>f g. cb_offset f < cb_offset g) (fragments qp2)))"
    if inv: "frag_inv qp"
  proof (cases rule: ip_frag_queue_cases
      [where cfg = cfg and orc = orc and n = n and qp = qp and skb = skb])
    case (far_err er n1 qp1)
    from ip_frag_queue_far_Inl(1,2) [OF far_err(1)] inv have "frag_inv qp1"
      by (simp add: frag_inv_def)
    with far_err st show ?thesis by (simp add: Let_def)
  next
    case (insert_err n1 qp1 er qp2)
    from ip_frag_queue_far_inv [OF insert_err(1) inv] have "frag_inv qp1" .
    from ip_frag_queue_insert_inv(1) [OF this insert_err(2)] have "frag_inv qp2" .
    with insert_err st show ?thesis by (simp add: Let_def)
  next
    case (pending n1 qp1 qp2 skb2 prev)
    from ip_frag_queue_far_inv [OF pending(1) inv] have "frag_inv qp1" .
    from ip_frag_queue_insert_inv(2) [OF this pending(2)] have "frag_inv qp2" .
    with pending(1,2,4) st show ?thesis by (simp add: Let_def)
  next
    case (reasm n1 qp1 qp2 skb2 prev r' n3 qp3)
    from ip_frag_queue_far_inv [OF reasm(1) inv] have "frag_inv qp1" .
    from ip_frag_queue_insert_inv(2) [OF this reasm(2)] have i2: "frag_inv qp2" .
    note G = ip_frag_reasm_frame [OF reasm(5)]
    have "case r' of
              Inl er \<Rightarrow>
                frag_inv qp3 \<and> sorted_wrt (\<lambda>f g. cb_offset f < cb_offset g) (fragments qp3)
            | Inr d \<Rightarrow> fragments qp3 = [] \<and> meat qp3 = len qp3"
    proof (cases r')
      case (Inl er)
      with G(3,9) i2 have "frag_inv qp3" by (simp add: frag_inv_def)
      with Inl st show ?thesis by simp
    next
      case (Inr d)
      with G(3,4,9) reasm(4) show ?thesis by simp
    qed
    with reasm(1,2,6) i2 st show ?thesis by (simp add: Let_def split: sum.splits)
  qed
  from base step show ?thesis by blast
qed

theorem insertion_keeps_fragments_sorted_witness:
  "frag_inv qp_0_8
   \<and> frag_inv (qp_out (ip_frag_queue cfg64 env_ok net1 qp_0_8 frag_16_empty))
   \<and> ret (ip_frag_queue cfg64 env_ok net1 qp_0_8 frag_16_empty) = Inl EINVAL"
proof -
  have i: "frag_inv qp_0_8"
    by (simp add: frag_inv_def frags_ok_def qp_0_8_eq skb_len_def example_defs)
  have r: "ret (ip_frag_queue cfg64 env_ok net1 qp_0_8 frag_16_empty) = Inl EINVAL"
    by (simp add: qp_0_8_eq run_defs)
  from insertion_keeps_fragments_sorted [of cfg64 True frag_0_8 qp_0_8 env_ok net1 frag_16_empty]
    i r
  have "frag_inv (qp_out (ip_frag_queue cfg64 env_ok net1 qp_0_8 frag_16_empty))"
    by (simp add: Let_def)
  with i r show ?thesis by simp
qed

text \<open>
  The claim as stated fails after the insertion that completes the datagram: the queue
  that held bytes 0 to 7 receives bytes 8 to 15 and returns the datagram, and then holds
  no fragment while \<^verbatim>\<open>meat\<close> is 16.
\<close>

theorem fragments_after_gluing_counterexample:
  "frag_inv qp_0_8
   \<and> map_sum id data (ret (ip_frag_queue cfg64 env_ok net1 qp_0_8 frag_8_16))
       = Inr [1, 2, 3, 4, 5, 6, 7, 8, 9, 10, 11, 12, 13, 14, 15, 16]
   \<and> fragments (qp_out (ip_frag_queue cfg64 env_ok net1 qp_0_8 frag_8_16)) = []
   \<and> meat (qp_out (ip_frag_queue cfg64 env_ok net1 qp_0_8 frag_8_16)) = 16
   \<and> \<not> frag_inv (qp_out (ip_frag_queue cfg64 env_ok net1 qp_0_8 frag_8_16))"
proof -
  have "frag_inv qp_0_8"
    by (simp add: frag_inv_def frags_ok_def qp_0_8_eq skb_len_def example_defs)
  moreover have "map_sum id data (ret (ip_frag_queue cfg64 env_ok net1 qp_0_8 frag_8_16))
       = Inr [1, 2, 3, 4, 5, 6, 7, 8, 9, 10, 11, 12, 13, 14, 15, 16]"
    by (simp add: qp_0_8_eq run_defs)
  moreover have q: "fragments (qp_out (ip_frag_queue cfg64 env_ok net1 qp_0_8 frag_8_16)) = []"
    "meat (qp_out (ip_frag_queue cfg64 env_ok net1 qp_0_8 frag_8_16)) = 16"
    by (simp_all add: qp_0_8_eq run_defs)
  moreover from q have "\<not> frag_inv (qp_out (ip_frag_queue cfg64 env_ok net1 qp_0_8 frag_8_16))"
    by (simp add: frag_inv_def)
  ultimately show ?thesis by blast
qed

subsection \<open>A fragment inside a held range\<close>



subsection \<open>The decision on \<^verbatim>\<open>IP_DF\<close>\<close>

lemma ip_frag_queue_insert_Inr_sizes:
  assumes "ip_frag_queue_insert orc qp skb = Inr (qp2, skb2, prev)"
  shows "0 < length (data skb2)" and "length (data skb2) \<le> length (data skb)"
    and "ihl skb2 = ihl skb" and "frag_df skb2 = frag_df skb"
    and "max_size qp2 = (if length (data skb2) + ihl skb2 > max_size qp
                         then (length (data skb2) + ihl skb2) mod 65536 else max_size qp)"
    and "max_df_size qp2 = (if frag_df skb2 \<and> length (data skb2) + ihl skb2 > max_df_size qp
                            then (length (data skb2) + ihl skb2) mod 65536 else max_df_size qp)"
proof -
  have "0 < length (data skb2) \<and> length (data skb2) \<le> length (data skb)
      \<and> ihl skb2 = ihl skb \<and> frag_df skb2 = frag_df skb
      \<and> max_size qp2 = (if length (data skb2) + ihl skb2 > max_size qp
                         then (length (data skb2) + ihl skb2) mod 65536 else max_size qp)
      \<and> max_df_size qp2 = (if frag_df skb2 \<and> length (data skb2) + ihl skb2 > max_df_size qp
                            then (length (data skb2) + ihl skb2) mod 65536 else max_df_size qp)"
  proof (cases rule: ip_frag_queue_insert_cases [where orc = orc and qp = qp and skb = skb])
    case (linked qp1 skb1 offset e front rear skb2' offset2 rear1 m)
    from assms linked(5) have q: "qp2 = ip_frag_queue_link qp1 front skb2' offset2 rear1 m"
      and s: "skb2' = skb2" by auto
    note R = ip_frag_queue_range_Inr [OF linked(1)]
    note Rf = ip_frag_queue_range_Inr_frame [OF linked(1)]
    note P = ip_frag_queue_prev_Inr [OF linked(3)]
    from P(1,2) R(5) have o2: "offset \<le> offset2" "offset2 < e" by auto
    have d2: "data skb2 = drop (nat (offset2 - offset)) (take (nat (e - offset)) (data skb))"
      using P(4) R(9) s by simp
    from R(10) R(9) have l1: "int (length (take (nat (e - offset)) (data skb))) = e - offset"
      by (simp add: skb_len_def)
    have pos: "0 < length (data skb2)" using d2 l1 o2 by simp
    have le: "length (data skb2) \<le> length (data skb)" using d2 by simp
    have h: "ihl skb2 = ihl skb" "frag_df skb2 = frag_df skb"
      using P(5,6) R(11,12) s by (simp_all add: frag_df_def)
    have mx: "max_size qp2 = (if length (data skb2) + ihl skb2 > max_size qp
                         then (length (data skb2) + ihl skb2) mod 65536 else max_size qp)"
      "max_df_size qp2 = (if frag_df skb2 \<and> length (data skb2) + ihl skb2 > max_df_size qp
                            then (length (data skb2) + ihl skb2) mod 65536 else max_df_size qp)"
      unfolding q s using Rf(5,6) by (simp_all add: ip_frag_queue_link_def Let_def)
    from pos le h mx show ?thesis by blast
  qed (use assms in simp_all)
  then show "0 < length (data skb2)" and "length (data skb2) \<le> length (data skb)"
    and "ihl skb2 = ihl skb" and "frag_df skb2 = frag_df skb"
    and "max_size qp2 = (if length (data skb2) + ihl skb2 > max_size qp
                         then (length (data skb2) + ihl skb2) mod 65536 else max_size qp)"
    and "max_df_size qp2 = (if frag_df skb2 \<and> length (data skb2) + ihl skb2 > max_df_size qp
                            then (length (data skb2) + ihl skb2) mod 65536 else max_df_size qp)"
    by blast+
qed

lemma sizes_inv_snoc:
  assumes "sizes_inv qp ps" and "0 < s" and "s \<le> 65535"
    and "max_size qp2 = (if s > max_size qp then s mod 65536 else max_size qp)"
    and "max_df_size qp2 = (if b \<and> s > max_df_size qp then s mod 65536 else max_df_size qp)"
  shows "sizes_inv qp2 (ps @ [(b, s)])"
proof -
  have m: "s mod 65536 = s" using assms(3) by simp
  have fin: "finite (snd ` set ps)" "finite (snd ` {x \<in> set ps. fst x})" by simp_all
  have ins: "Max (insert s (insert 0 A)) = max s (Max (insert 0 A))" if "finite A" for A :: "nat set"
    by (rule Max_insert) (use that in auto)
  have "insert 0 (snd ` set (ps @ [(b, s)])) = insert s (insert 0 (snd ` set ps))" by auto
  then have 1: "Max (insert 0 (snd ` set (ps @ [(b, s)]))) = max s (Max (insert 0 (snd ` set ps)))"
    using ins [OF fin(1)] by (simp only:)
  have 2: "Max (insert 0 (snd ` {x \<in> set (ps @ [(b, s)]). fst x}))
           = (if b then max s (Max (insert 0 (snd ` {x \<in> set ps. fst x})))
              else Max (insert 0 (snd ` {x \<in> set ps. fst x})))"
  proof (cases b)
    case True
    then have "{x \<in> set (ps @ [(b, s)]). fst x} = insert (True, s) {x \<in> set ps. fst x}"
      by auto
    then have "snd ` {x \<in> set (ps @ [(b, s)]). fst x} = insert s (snd ` {x \<in> set ps. fst x})"
      by (simp only: image_insert snd_conv)
    then have "insert 0 (snd ` {x \<in> set (ps @ [(b, s)]). fst x})
               = insert s (insert 0 (snd ` {x \<in> set ps. fst x}))"
      by blast
    with True ins [OF fin(2)] show ?thesis by (simp only: if_True)
  next
    case False
    then have "{x \<in> set (ps @ [(b, s)]). fst x} = {x \<in> set ps. fst x}" by auto
    with False show ?thesis by simp
  qed
  define M where "M = Max (insert 0 (snd ` set ps))"
  define D where "D = Max (insert 0 (snd ` {x \<in> set ps. fst x}))"
  from assms(1) have a: "max_size qp = M" "max_df_size qp = D"
    and r: "\<forall>x \<in> set ps. 0 < snd x \<and> snd x \<le> 65535"
    unfolding sizes_inv_def M_def D_def by simp_all
  from assms(4) a(1) m have x: "max_size qp2 = max s M" by (simp add: max_def)
  from assms(5) a(2) m have y: "max_df_size qp2 = (if b then max s D else D)"
    by (simp add: max_def)
  from r assms(2,3) have z: "\<forall>x \<in> set (ps @ [(b, s)]). 0 < snd x \<and> snd x \<le> 65535"
    by simp
  show ?thesis
    unfolding sizes_inv_def 1 2 using x y z unfolding M_def D_def by blast
qed

lemma sizes_inv_frame:
  assumes "sizes_inv qp ps" and "max_size qp2 = max_size qp" and "max_df_size qp2 = max_df_size qp"
  shows "sizes_inv qp2 ps"
  using assms by (simp add: sizes_inv_def)

lemma sizes_inv_df:
  assumes "sizes_inv qp ps" and "ps \<noteq> []"
  shows "max_df_size qp = max_size qp
         \<longleftrightarrow> (\<exists>s. (True, s) \<in> set ps \<and> (\<forall>x \<in> set ps. snd x \<le> s))"
proof -
  let ?A = "snd ` set ps" and ?D = "snd ` {x \<in> set ps. fst x}"
  from assms(1) have mx: "max_size qp = Max (insert 0 ?A)" and md: "max_df_size qp = Max (insert 0 ?D)"
    and pos: "\<forall>x \<in> set ps. 0 < snd x"
    by (simp_all add: sizes_inv_def)
  have fin: "finite (insert 0 ?A)" "finite (insert 0 ?D)" by simp_all
  from assms(2) obtain x where x: "x \<in> set ps" by (cases ps) auto
  with pos have "0 < snd x" by simp
  moreover from x fin(1) have "snd x \<le> Max (insert 0 ?A)" by (intro Max_ge) auto
  ultimately have mpos: "0 < Max (insert 0 ?A)" by simp
  show ?thesis
  proof
    assume eq: "max_df_size qp = max_size qp"
    with mx md mpos have "0 < Max (insert 0 ?D)" by simp
    moreover have "Max (insert 0 ?D) \<in> insert 0 ?D" by (rule Max_in) (use fin in auto)
    ultimately have "Max (insert 0 ?D) \<in> ?D" by auto
    then obtain y where y: "y \<in> set ps" "fst y" "snd y = Max (insert 0 ?D)" by auto
    have "\<forall>z \<in> set ps. snd z \<le> snd y"
    proof
      fix z assume "z \<in> set ps"
      with fin(1) have "snd z \<le> Max (insert 0 ?A)" by (intro Max_ge) auto
      with y(3) eq mx md show "snd z \<le> snd y" by simp
    qed
    moreover from y(2) have "y = (True, snd y)" by (cases y) simp
    with y(1) have "(True, snd y) \<in> set ps" by simp
    ultimately show "\<exists>s. (True, s) \<in> set ps \<and> (\<forall>x \<in> set ps. snd x \<le> s)" by blast
  next
    assume "\<exists>s. (True, s) \<in> set ps \<and> (\<forall>x \<in> set ps. snd x \<le> s)"
    then obtain s where s: "(True, s) \<in> set ps" "\<forall>x \<in> set ps. snd x \<le> s" by blast
    from s(1) have sD: "s \<in> ?D" by force
    from s(1) have sA: "s \<in> ?A" by force
    have "Max (insert 0 ?A) = s"
      by (rule Max_eqI) (use s(2) sA in auto)
    moreover have "Max (insert 0 ?D) = s"
      by (rule Max_eqI) (use s(2) sD in auto)
    ultimately show "max_df_size qp = max_size qp" using mx md by simp
  qed
qed

lemma ip_defrag_sizes_step:
  assumes inv: "sizes_inv qp ps" and wf: "length (data skb) + ihl skb \<le> 65535"
  shows "sizes_inv (qp_out (ip_frag_queue cfg orc n qp skb))
           (ps @
            (case ip_frag_queue_far cfg orc n qp skb of
               Inl er \<Rightarrow> []
             | Inr (n1, qp1) \<Rightarrow>
                 (case ip_frag_queue_insert orc qp1 skb of
                    Inl er \<Rightarrow> []
                  | Inr (qp2, skb2, prev) \<Rightarrow> [(frag_df skb2, length (data skb2) + ihl skb2)])))
       \<and> (\<forall>d. ret (ip_frag_queue cfg orc n qp skb) = Inr d \<longrightarrow>
              (frag_df d \<longleftrightarrow> max_df_size (qp_out (ip_frag_queue cfg orc n qp skb))
                             = max_size (qp_out (ip_frag_queue cfg orc n qp skb)))
              \<and> (case ip_frag_queue_far cfg orc n qp skb of
                    Inl er \<Rightarrow> []
                  | Inr (n1, qp1) \<Rightarrow>
                      (case ip_frag_queue_insert orc qp1 skb of
                         Inl er \<Rightarrow> []
                       | Inr (qp2, skb2, prev) \<Rightarrow>
                           [(frag_df skb2, length (data skb2) + ihl skb2)])) \<noteq> [])"
proof (cases rule: ip_frag_queue_cases
    [where cfg = cfg and orc = orc and n = n and qp = qp and skb = skb])
  case (far_err er n1 qp1)
  from sizes_inv_frame [OF inv ip_frag_queue_far_Inl(4,5) [OF far_err(1)]] far_err
  show ?thesis by simp
next
  case (insert_err n1 qp1 er qp2)
  from sizes_inv_frame [OF inv ip_frag_queue_far_Inr(3,4) [OF insert_err(1)]]
  have "sizes_inv qp1 ps" .
  from sizes_inv_frame [OF this ip_frag_queue_insert_Inl_frame(4,5) [OF insert_err(2)]] insert_err
  show ?thesis by simp
next
  case (pending n1 qp1 qp2 skb2 prev)
  from sizes_inv_frame [OF inv ip_frag_queue_far_Inr(3,4) [OF pending(1)]]
  have i1: "sizes_inv qp1 ps" .
  note Z = ip_frag_queue_insert_Inr_sizes [OF pending(2)]
  from Z(1,2,3) wf have "0 < length (data skb2) + ihl skb2" "length (data skb2) + ihl skb2 \<le> 65535"
    by simp_all
  from sizes_inv_snoc [OF i1 this Z(5,6)] pending(1,2,4) show ?thesis by simp
next
  case (reasm n1 qp1 qp2 skb2 prev r' n3 qp3)
  from sizes_inv_frame [OF inv ip_frag_queue_far_Inr(3,4) [OF reasm(1)]]
  have i1: "sizes_inv qp1 ps" .
  note Z = ip_frag_queue_insert_Inr_sizes [OF reasm(2)]
  from Z(1,2,3) wf have "0 < length (data skb2) + ihl skb2" "length (data skb2) + ihl skb2 \<le> 65535"
    by simp_all
  from sizes_inv_snoc [OF i1 this Z(5,6)]
  have i2: "sizes_inv qp2 (ps @ [(frag_df skb2, length (data skb2) + ihl skb2)])" .
  note G = ip_frag_reasm_frame [OF reasm(5)]
  from sizes_inv_frame [OF i2 G(5,6)]
  have i3: "sizes_inv qp3 (ps @ [(frag_df skb2, length (data skb2) + ihl skb2)])" .
  have "r' = Inr d \<longrightarrow> (frag_df d \<longleftrightarrow> max_df_size qp3 = max_size qp3)" for d
    using ip_frag_reasm_Inr(3) [of cfg orc n1 qp2 prev "dev skb" d n3 qp3] reasm(5) G(5,6)
    by auto
  with i3 reasm(1,2,6) show ?thesis by simp
qed

lemma ip_defrag_sizes_run:
  assumes "sizes_inv qp ps" and "\<forall>(orc, skb) \<in> set steps. length (data skb) + ihl skb \<le> 65535"
    and "steps \<noteq> []"
  shows "sizes_inv (qp_out (last (ip_defrag_list cfg n qp steps)))
           (ps @ ip_defrag_sizes cfg n qp steps)
       \<and> (\<forall>d. ret (last (ip_defrag_list cfg n qp steps)) = Inr d \<longrightarrow>
              (frag_df d \<longleftrightarrow> max_df_size (qp_out (last (ip_defrag_list cfg n qp steps)))
                             = max_size (qp_out (last (ip_defrag_list cfg n qp steps))))
              \<and> ip_defrag_sizes cfg n qp steps \<noteq> [])"
  using assms
proof (induction steps arbitrary: n qp ps)
  case Nil
  then show ?case by simp
next
  case (Cons st steps)
  obtain orc skb where st: "st = (orc, skb)" by (cases st)
  let ?n0 = "n\<lparr>peer_rid := peer_rid n + rid_others orc\<rparr>"
  let ?r = "ip_frag_queue cfg orc ?n0 qp skb"
  let ?rec = "(case ip_frag_queue_far cfg orc ?n0 qp skb of
               Inl er \<Rightarrow> []
             | Inr (n1, qp1) \<Rightarrow>
                 (case ip_frag_queue_insert orc qp1 skb of
                    Inl er \<Rightarrow> []
                  | Inr (qp2, skb2, prev) \<Rightarrow> [(frag_df skb2, length (data skb2) + ihl skb2)]))"
  from Cons.prems(2) st have wf: "length (data skb) + ihl skb \<le> 65535"
    and wfs: "\<forall>(orc, skb) \<in> set steps. length (data skb) + ihl skb \<le> 65535"
    by simp_all
  from ip_defrag_sizes_step [OF Cons.prems(1) wf, of cfg orc ?n0]
  have S: "sizes_inv (qp_out ?r) (ps @ ?rec)"
    and D: "\<forall>d. ret ?r = Inr d \<longrightarrow>
              (frag_df d \<longleftrightarrow> max_df_size (qp_out ?r) = max_size (qp_out ?r)) \<and> ?rec \<noteq> []"
    by simp_all
  have sz: "ip_defrag_sizes cfg n qp (st # steps)
            = ?rec @ ip_defrag_sizes cfg (net_out ?r) (qp_out ?r) steps"
    by (simp add: st Let_def)
  have ls: "ip_defrag_list cfg n qp (st # steps)
            = ?r # ip_defrag_list cfg (net_out ?r) (qp_out ?r) steps"
    by (simp add: st Let_def)
  show ?case
  proof (cases "steps = []")
    case True
    with S D show ?thesis unfolding sz ls by simp
  next
    case False
    then have ne: "ip_defrag_list cfg (net_out ?r) (qp_out ?r) steps \<noteq> []"
      by (cases steps) (auto simp: Let_def)
    from Cons.IH [OF S wfs False, of "net_out ?r"] ne show ?thesis
      unfolding sz ls by simp
  qed
qed

text \<open>
  C6, as amended. A datagram that \<^verbatim>\<open>ip_frag_reasm\<close> returns carries \<^verbatim>\<open>IP_DF\<close> if and only
  if \<^verbatim>\<open>max_df_size\<close> equals \<^verbatim>\<open>max_size\<close>. For a queue that started new and received
  buffers of at most 65535 bytes, that is: if and only if, among the sizes recorded for
  the fragments that were linked (header and the payload left after the cuts, counting
  fragments that were later overridden or dropped by a reinitialisation), a largest one
  was recorded for a fragment with \<^verbatim>\<open>IP_DF\<close>. In particular the datagram never carries
  \<^verbatim>\<open>IP_DF\<close> when no received fragment did.
\<close>

theorem df_follows_largest_recorded_size:
  "(ip_frag_reasm cfg orc n qp prev dv = (Inr d, n', qp')
      \<longrightarrow> (frag_df d \<longleftrightarrow> max_df_size qp = max_size qp))
   \<and> (steps \<noteq> [] \<longrightarrow>
        (\<forall>(orc, skb) \<in> set steps. length (data skb) + ihl skb \<le> 65535) \<longrightarrow>
        ret (last (ip_defrag_list cfg n0 (ip4_frag_init cfg getpeer_ok skb0) steps)) = Inr d0 \<longrightarrow>
        (frag_df d0 \<longleftrightarrow>
           (\<exists>s. (True, s) \<in> set (ip_defrag_sizes cfg n0 (ip4_frag_init cfg getpeer_ok skb0) steps)
              \<and> (\<forall>x \<in> set (ip_defrag_sizes cfg n0 (ip4_frag_init cfg getpeer_ok skb0) steps).
                    snd x \<le> s)))
        \<and> ((\<forall>(orc, skb) \<in> set steps. \<not> frag_df skb) \<longrightarrow> \<not> frag_df d0))"
proof -
  let ?q0 = "ip4_frag_init cfg getpeer_ok skb0"
  have a: "ip_frag_reasm cfg orc n qp prev dv = (Inr d, n', qp')
      \<longrightarrow> (frag_df d \<longleftrightarrow> max_df_size qp = max_size qp)"
    using ip_frag_reasm_Inr(3) by blast
  have b: "(frag_df d0 \<longleftrightarrow>
           (\<exists>s. (True, s) \<in> set (ip_defrag_sizes cfg n0 ?q0 steps)
              \<and> (\<forall>x \<in> set (ip_defrag_sizes cfg n0 ?q0 steps). snd x \<le> s)))
        \<and> ((\<forall>(orc, skb) \<in> set steps. \<not> frag_df skb) \<longrightarrow> \<not> frag_df d0)"
    if ne: "steps \<noteq> []"
      and wf: "\<forall>(orc, skb) \<in> set steps. length (data skb) + ihl skb \<le> 65535"
      and r: "ret (last (ip_defrag_list cfg n0 ?q0 steps)) = Inr d0"
  proof -
    have i0: "sizes_inv ?q0 []" by (simp add: sizes_inv_def ip4_frag_init_def)
    from ip_defrag_sizes_run [OF i0 wf ne, of cfg n0] r
    have i: "sizes_inv (qp_out (last (ip_defrag_list cfg n0 ?q0 steps)))
               (ip_defrag_sizes cfg n0 ?q0 steps)"
      and e: "frag_df d0 \<longleftrightarrow> max_df_size (qp_out (last (ip_defrag_list cfg n0 ?q0 steps)))
                             = max_size (qp_out (last (ip_defrag_list cfg n0 ?q0 steps)))"
      and z: "ip_defrag_sizes cfg n0 ?q0 steps \<noteq> []"
      by simp_all
    from e sizes_inv_df [OF i z]
    have 1: "frag_df d0 \<longleftrightarrow>
           (\<exists>s. (True, s) \<in> set (ip_defrag_sizes cfg n0 ?q0 steps)
              \<and> (\<forall>x \<in> set (ip_defrag_sizes cfg n0 ?q0 steps). snd x \<le> s))"
      by simp
    have 2: "\<forall>x \<in> set (ip_defrag_sizes cfg m q steps). \<not> fst x"
      if "\<forall>(orc, skb) \<in> set steps. \<not> frag_df skb" for m q
      using that
    proof (induction steps arbitrary: m q)
      case Nil
      then show ?case by simp
    next
      case (Cons st steps)
      obtain orc skb where st: "st = (orc, skb)" by (cases st)
      with Cons.prems have nd: "\<not> frag_df skb"
        and rest: "\<forall>(orc, skb) \<in> set steps. \<not> frag_df skb" by simp_all
      have "\<not> frag_df skb2" if "Inr (q2, skb2, prev) = ip_frag_queue_insert orc q1 skb"
        for q1 q2 skb2 prev
        using ip_frag_queue_insert_Inr_sizes(4) [OF that [symmetric]] nd by simp
      with Cons.IH [OF rest] show ?case
        by (auto simp: st Let_def split: sum.splits prod.splits)
    qed
    from 1 2 show ?thesis by fastforce
  qed
  from a b show ?thesis by blast
qed

theorem df_follows_largest_recorded_size_witness:
  "length (data frag_0_8) + ihl frag_0_8 \<le> 65535 \<and> \<not> frag_df frag_0_8
   \<and> length (data frag_8_16) + ihl frag_8_16 \<le> 65535 \<and> \<not> frag_df frag_8_16
   \<and> (\<exists>d0. ret (last (ip_defrag_list cfg64 net0 (ip4_frag_init cfg64 True frag_0_8)
                          [(env_ok, frag_0_8), (env_ok, frag_8_16)])) = Inr d0
            \<and> \<not> frag_df d0)"
proof -
  let ?steps = "[(env_ok, frag_0_8), (env_ok, frag_8_16)]"
  have c: "length (data frag_0_8) + ihl frag_0_8 \<le> 65535" "\<not> frag_df frag_0_8"
    "length (data frag_8_16) + ihl frag_8_16 \<le> 65535" "\<not> frag_df frag_8_16"
    by (simp_all add: frag_df_def IP_DF_def example_defs)
  then have wf: "\<forall>(orc, skb) \<in> set ?steps. length (data skb) + ihl skb \<le> 65535"
    and nd: "\<forall>(orc, skb) \<in> set ?steps. \<not> frag_df skb"
    by simp_all
  have ne: "?steps \<noteq> []" by simp
  obtain d0 where
    r: "ret (last (ip_defrag_list cfg64 net0 (ip4_frag_init cfg64 True frag_0_8) ?steps)) = Inr d0"
    by (simp add: run_defs)
  from df_follows_largest_recorded_size
    [where steps = ?steps and cfg = cfg64 and ?n0.0 = net0 and getpeer_ok = True
      and ?skb0.0 = frag_0_8 and ?d0.0 = d0] wf nd r ne
  have "\<not> frag_df d0" by blast
  with c r show ?thesis by blast
qed

text \<open>
  The claim as stated fails. First run: a fragment of 36 bytes without \<^verbatim>\<open>IP_DF\<close> holds
  bytes 0 to 15; the final fragment, of 40 bytes and with \<^verbatim>\<open>IP_DF\<close>, is the single
  largest, but it overlaps by 8 bytes and is recorded with the 32 bytes left after the
  cut, so the datagram of 28 bytes does not carry \<^verbatim>\<open>IP_DF\<close>. Second run: a fragment
  with \<^verbatim>\<open>IP_DF\<close> is overridden by a fragment of the same range without it; the datagram
  is built from the bytes of the two fragments without \<^verbatim>\<open>IP_DF\<close> and carries it.
\<close>

theorem df_of_largest_fragment_counterexample:
  "map (\<lambda>(orc, skb). (frag_df skb, length (data skb) + ihl skb))
     [(env_ok, frag_0_16), (env_ok, frag_df_8_28)] = [(False, 36), (True, 40)]
   \<and> map (\<lambda>r. map_sum id (\<lambda>d. (frag_df d, length (data d))) (ret r))
       (ip_defrag_list cfg64 net0 (ip4_frag_init cfg64 True frag_0_16)
          [(env_ok, frag_0_16), (env_ok, frag_df_8_28)])
     = [Inl EINPROGRESS, Inr (False, 28)]
   \<and> ip_defrag_sizes cfg64 net0 (ip4_frag_init cfg64 True frag_0_16)
          [(env_ok, frag_0_16), (env_ok, frag_df_8_28)] = [(False, 36), (True, 32)]
   \<and> map (\<lambda>(orc, skb). (frag_df skb, data skb))
       [(env_ok, frag_df_0_8), (env_ok, frag_0_8), (env_ok, frag_8_16)]
     = [(True, [101, 102, 103, 104, 105, 106, 107, 108]), (False, [1, 2, 3, 4, 5, 6, 7, 8]),
        (False, [9, 10, 11, 12, 13, 14, 15, 16])]
   \<and> map (\<lambda>r. map_sum id (\<lambda>d. (frag_df d, data d)) (ret r))
       (ip_defrag_list cfg64 net0 (ip4_frag_init cfg64 True frag_df_0_8)
          [(env_ok, frag_df_0_8), (env_ok, frag_0_8), (env_ok, frag_8_16)])
     = [Inl EINPROGRESS, Inl EINPROGRESS,
        Inr (True, [1, 2, 3, 4, 5, 6, 7, 8, 9, 10, 11, 12, 13, 14, 15, 16])]"
  by (simp add: run_defs)


lemma queued_simps [simp]:
  "cb_offset (queued f) = frag_offset f" "skb_len (queued f) = skb_len f"
  "data (queued f) = data f" "frag_end (queued f) = wire_end f" "ihl (queued f) = ihl f"
  by (simp_all add: queued_def skb_len_def frag_end_def wire_end_def)

lemma frag_chain_props:
  assumes "frag_chain pos fs"
  shows "fs \<noteq> []" and "frag_offset (hd fs) = pos"
    and "\<forall>f \<in> set fs. data f \<noteq> [] \<and> pos \<le> frag_offset f
                      \<and> wire_end f \<le> pos + sum_list (map skb_len fs)"
    and "sorted_wrt (\<lambda>a b. wire_end a \<le> frag_offset b) fs"
    and "wire_end (last fs) = pos + sum_list (map skb_len fs)"
    and "\<not> frag_mf (last fs)"
    and "\<forall>f \<in> set (butlast fs). frag_mf f \<and> wire_end f mod 8 = 0"
proof -
  have "fs \<noteq> [] \<and> frag_offset (hd fs) = pos
      \<and> (\<forall>f \<in> set fs. data f \<noteq> [] \<and> pos \<le> frag_offset f
                      \<and> wire_end f \<le> pos + sum_list (map skb_len fs))
      \<and> sorted_wrt (\<lambda>a b. wire_end a \<le> frag_offset b) fs
      \<and> wire_end (last fs) = pos + sum_list (map skb_len fs)
      \<and> \<not> frag_mf (last fs)
      \<and> (\<forall>f \<in> set (butlast fs). frag_mf f \<and> wire_end f mod 8 = 0)"
    using assms
  proof (induction pos fs rule: frag_chain.induct)
    case (1 pos)
    then show ?case by simp
  next
    case (2 pos f)
    then show ?case by (simp add: wire_end_def)
  next
    case (3 pos f g fs)
    from "3.prems" have f: "frag_offset f = pos" "frag_mf f" "data f \<noteq> []"
      and c: "frag_chain (wire_end f) (g # fs)" by simp_all
    note IH = "3.IH" [OF c]
    from f(3) have lf: "0 < skb_len f" by (simp add: skb_len_def)
    from IH have g: "frag_offset g = wire_end f" by simp
    then have m8: "wire_end f mod 8 = 0" using frag_offset_mod8 [of g] by simp
    have we: "wire_end f = pos + skb_len f" using f(1) by (simp add: wire_end_def)
    from IH have all: "\<forall>h \<in> set (g # fs). data h \<noteq> [] \<and> wire_end f \<le> frag_offset h
                      \<and> wire_end h \<le> wire_end f + sum_list (map skb_len (g # fs))"
      by blast
    have sk: "0 \<le> sum_list (map skb_len (g # fs))"
      by (rule sum_list_nonneg) (auto simp: skb_len_def)
    have a: "\<forall>h \<in> set (f # g # fs). data h \<noteq> [] \<and> pos \<le> frag_offset h
                      \<and> wire_end h \<le> pos + sum_list (map skb_len (f # g # fs))"
    proof
      fix h assume "h \<in> set (f # g # fs)"
      then consider "h = f" | "h \<in> set (g # fs)" by auto
      then show "data h \<noteq> [] \<and> pos \<le> frag_offset h
                      \<and> wire_end h \<le> pos + sum_list (map skb_len (f # g # fs))"
      proof cases
        case 1
        with f we sk show ?thesis by simp
      next
        case 2
        with all have "data h \<noteq> []" "wire_end f \<le> frag_offset h"
          "wire_end h \<le> wire_end f + sum_list (map skb_len (g # fs))" by blast+
        with we lf show ?thesis by simp
      qed
    qed
    have s: "sorted_wrt (\<lambda>a b. wire_end a \<le> frag_offset b) (f # g # fs)"
      using IH all by simp
    have l: "wire_end (last (f # g # fs)) = pos + sum_list (map skb_len (f # g # fs))"
      using IH we by simp
    have b: "\<forall>h \<in> set (butlast (f # g # fs)). frag_mf h \<and> wire_end h mod 8 = 0"
      using IH f(2) m8 by simp
    from f(1) a s l b IH show ?case by simp
  qed
  then show "fs \<noteq> []" and "frag_offset (hd fs) = pos"
    and "\<forall>f \<in> set fs. data f \<noteq> [] \<and> pos \<le> frag_offset f
                      \<and> wire_end f \<le> pos + sum_list (map skb_len fs)"
    and "sorted_wrt (\<lambda>a b. wire_end a \<le> frag_offset b) fs"
    and "wire_end (last fs) = pos + sum_list (map skb_len fs)"
    and "\<not> frag_mf (last fs)"
    and "\<forall>f \<in> set (butlast fs). frag_mf f \<and> wire_end f mod 8 = 0"
    by blast+
qed

lemma frag_chain_distinct:
  assumes "frag_chain pos fs"
  shows "distinct fs"
proof -
  from frag_chain_props(3,4) [OF assms]
  have p: "\<forall>f \<in> set fs. data f \<noteq> []"
    and s: "sorted_wrt (\<lambda>a b. wire_end a \<le> frag_offset b) fs" by simp_all
  from p s show ?thesis
  proof (induction fs)
    case Nil
    then show ?case by simp
  next
    case (Cons a fs)
    have "a \<notin> set fs"
    proof
      assume "a \<in> set fs"
      with Cons.prems(2) have "wire_end a \<le> frag_offset a" by simp
      moreover from Cons.prems(1) have "0 < skb_len a" by (simp add: skb_len_def)
      ultimately show False by (simp add: wire_end_def)
    qed
    with Cons show ?case by simp
  qed
qed

lemma ip_frag_queue_range_whole:
  assumes "data skb \<noteq> []" and "pull_hdr_ok orc"
    and "frag_mf skb \<Longrightarrow> wire_end skb mod 8 = 0
           \<and> (INET_FRAG_LAST_IN \<in> flags qp \<longrightarrow> wire_end skb \<le> len qp)"
    and "\<not> frag_mf skb \<Longrightarrow> len qp \<le> wire_end skb \<and> INET_FRAG_LAST_IN \<notin> flags qp"
  shows "ip_frag_queue_range orc qp skb =
           Inr (qp\<lparr>flags := (if frag_mf skb then flags qp
                              else insert INET_FRAG_LAST_IN (flags qp)),
                    len := (if frag_mf skb then max (len qp) (wire_end skb) else wire_end skb)\<rparr>,
                skb, frag_offset skb, wire_end skb)"
proof -
  from assms(1) have pos: "0 < skb_len skb" by (simp add: skb_len_def)
  then have ne: "wire_end skb \<noteq> frag_offset skb" by (simp add: wire_end_def)
  have tr: "pskb_trim_rcsum orc skb (wire_end skb - frag_offset skb) = Some skb"
    by (simp add: pskb_trim_rcsum_def wire_end_def)
  show ?thesis
  proof (cases "frag_mf skb")
    case True
    with assms(3) have m: "wire_end skb mod 8 = 0"
      and l: "INET_FRAG_LAST_IN \<in> flags qp \<longrightarrow> wire_end skb \<le> len qp" by simp_all
    have e: "ip_frag_queue_end qp skb
             = Inr (qp\<lparr>len := max (len qp) (wire_end skb)\<rparr>, skb, wire_end skb)"
    proof (cases "wire_end skb > len qp")
      case gt: True
      with l have "INET_FRAG_LAST_IN \<notin> flags qp" by auto
      with True m gt show ?thesis
        by (simp add: ip_frag_queue_end_def Let_def wire_end_def max_def)
    next
      case False
      then have "max (len qp) (wire_end skb) = len qp" by simp
      with True m False show ?thesis
        by (simp add: ip_frag_queue_end_def Let_def wire_end_def)
    qed
    with True ne assms(2) tr show ?thesis
      by (simp add: ip_frag_queue_range_def Let_def)
  next
    case False
    with assms(4) have "len qp \<le> wire_end skb" "INET_FRAG_LAST_IN \<notin> flags qp" by simp_all
    with False have "ip_frag_queue_end qp skb
             = Inr (qp\<lparr>flags := insert INET_FRAG_LAST_IN (flags qp), len := wire_end skb\<rparr>,
                    skb, wire_end skb)"
      by (simp add: ip_frag_queue_end_def Let_def wire_end_def)
    with False ne assms(2) tr show ?thesis
      by (simp add: ip_frag_queue_range_def Let_def)
  qed
qed

lemma ip_frag_queue_find_split:
  assumes "\<forall>a \<in> set A. cb_offset a < offset" and "\<forall>b \<in> set B. offset \<le> cb_offset b"
  shows "ip_frag_queue_find (A @ B) offset = (A, B)"
proof -
  let ?P = "\<lambda>f. cb_offset f < offset"
  have tw: "takeWhile ?P (A @ B) = A"
  proof -
    have "takeWhile ?P (A @ B) = A @ takeWhile ?P B"
      using assms(1) by (simp add: takeWhile_append2)
    moreover have "takeWhile ?P B = []" using assms(2) by (cases B) auto
    ultimately show ?thesis by simp
  qed
  have dw: "dropWhile ?P (A @ B) = B"
  proof -
    have "dropWhile ?P (A @ B) = dropWhile ?P B"
      using assms(1) by (simp add: dropWhile_append2)
    moreover have "dropWhile ?P B = B" using assms(2) by (cases B) auto
    ultimately show ?thesis by simp
  qed
  show ?thesis
  proof (cases "A @ B = [] \<or> cb_offset (last (A @ B)) < offset")
    case False
    with tw dw show ?thesis by (simp add: ip_frag_queue_find_def)
  next
    case True
    have "B = []"
    proof (rule ccontr)
      assume b: "B \<noteq> []"
      then have l: "last (A @ B) = last B" and "last B \<in> set B" by simp_all
      with assms(2) have "offset \<le> cb_offset (last B)" by blast
      moreover from True b l have "cb_offset (last B) < offset" by simp
      ultimately show False by simp
    qed
    with True show ?thesis by (simp add: ip_frag_queue_find_def)
  qed
qed

lemma sum_list_filter_less:
  fixes w :: "'a \<Rightarrow> int"
  assumes "\<forall>x \<in> set xs. 0 < w x" and "g \<in> set xs" and "\<not> P g"
  shows "sum_list (map w (filter P xs)) < sum_list (map w xs)"
  using assms
proof (induction xs)
  case Nil
  then show ?case by simp
next
  case (Cons a xs)
  have le: "sum_list (map w (filter P xs)) \<le> sum_list (map w xs)"
    using Cons.prems(1) by (induction xs) (auto simp: add_increasing)
  show ?case
  proof (cases "g \<in> set xs")
    case True
    with Cons have "sum_list (map w (filter P xs)) < sum_list (map w xs)" by simp
    with Cons.prems(1) show ?thesis by simp
  next
    case False
    with Cons.prems have "g = a" "\<not> P a" "0 < w a" by auto
    with le show ?thesis by simp
  qed
qed

lemma bit_fold_or:
  "bit (fold (\<lambda>f u. u OR g f) fs (u0 :: 8 word)) k
     \<longleftrightarrow> bit u0 k \<or> (\<exists>f \<in> set fs. bit (g f) k)"
  by (induction fs arbitrary: u0) (auto simp: bit_or_iff)

lemma ip_frag_queue_link_max:
  "max_size (ip_frag_queue_link qp front skb offset rear m)
     = (if length (data skb) + ihl skb > max_size qp
        then (length (data skb) + ihl skb) mod 65536 else max_size qp)"
  "max_df_size (ip_frag_queue_link qp front skb offset rear m)
     = (if frag_df skb \<and> length (data skb) + ihl skb > max_df_size qp
        then (length (data skb) + ihl skb) mod 65536 else max_df_size qp)"
  by (simp_all add: ip_frag_queue_link_def Let_def)

lemma held_gate:
  assumes h: "held cfg fs e0 n qp ys" and ok: "IPSKB_FRAG_COMPLETE \<notin> ipcb_flags f"
  shows "\<exists>n1 qp1. ip_frag_queue_far cfg orc n qp f = Inr (n1, qp1)
           \<and> qp1 = qp\<lparr>rid := rid qp1\<rparr>
           \<and> (peer qp \<longrightarrow> sysctl_ipfrag_max_dist cfg \<noteq> 0 \<longrightarrow> rid qp1 = peer_rid n1)"
proof -
  from h have fl: "flags qp = (if hd fs \<in> set ys then {INET_FRAG_FIRST_IN} else {})
                   \<union> (if last fs \<in> set ys then {INET_FRAG_LAST_IN} else {})"
    and fr: "fragments qp = map queued (filter (\<lambda>f. f \<in> set ys) fs)"
    and rd: "peer qp \<longrightarrow> sysctl_ipfrag_max_dist cfg \<noteq> 0 \<longrightarrow> ys \<noteq> [] \<longrightarrow> rid qp = peer_rid n"
    by (simp_all add: held_def)
  from fl have nc: "INET_FRAG_COMPLETE \<notin> flags qp" by (simp split: if_splits)
  show ?thesis
  proof (cases "peer qp \<and> sysctl_ipfrag_max_dist cfg \<noteq> 0")
    case False
    then have "ip_frag_too_far cfg n qp = (False, n, qp)"
      by (auto simp: ip_frag_too_far_def Let_def)
    with nc ok have "ip_frag_queue_far cfg orc n qp f = Inr (n, qp)"
      by (simp add: ip_frag_queue_far_def)
    with False show ?thesis by auto
  next
    case True
    have rc: "\<not> (fragments qp \<noteq> [] \<and> peer_rid n + 1 - rid qp > sysctl_ipfrag_max_dist cfg)"
    proof (cases "ys = []")
      case e: True
      with fr show ?thesis by simp
    next
      case False
      with rd True have "rid qp = peer_rid n" by simp
      then have "peer_rid n + 1 - rid qp = 1" by simp
      with True show ?thesis by (simp add: word_less_1)
    qed
    with True have "ip_frag_too_far cfg n qp
         = (False, n\<lparr>peer_rid := peer_rid n + 1, reasmfails := reasmfails n\<rparr>,
            qp\<lparr>rid := peer_rid n + 1\<rparr>)"
      by (simp add: ip_frag_too_far_def Let_def)
    with nc ok have "ip_frag_queue_far cfg orc n qp f
         = Inr (n\<lparr>peer_rid := peer_rid n + 1, reasmfails := reasmfails n\<rparr>,
                qp\<lparr>rid := peer_rid n + 1\<rparr>)"
      by (simp add: ip_frag_queue_far_def)
    then show ?thesis by simp
  qed
qed

lemma held_step:
  assumes chain: "frag_chain 0 fs" and wf: "\<forall>f \<in> set fs. length (data f) + ihl f \<le> 65535"
    and h: "held cfg fs e0 n qp ys" and f: "f \<in> set fs" "f \<notin> set ys"
    and ok: "arrival_ok (orc, f)"
  shows "\<exists>n1 qp1 qp2 prev.
           ip_frag_queue_far cfg orc n qp f = Inr (n1, qp1)
         \<and> ip_frag_queue_insert orc qp1 f = Inr (qp2, f, prev)
         \<and> held cfg fs e0 n1 qp2 (ys @ [f])
         \<and> INET_FRAG_COMPLETE \<notin> flags qp2"
proof -
  note C = frag_chain_props [OF chain]
  note dist = frag_chain_distinct [OF chain]
  let ?tot = "sum_list (map skb_len fs)"
  let ?in = "\<lambda>g. g \<in> set ys"
  let ?in' = "\<lambda>g. g \<in> set (ys @ [f])"
  from ok have oks: "pull_hdr_ok orc" "IPSKB_FRAG_COMPLETE \<notin> ipcb_flags f"
    by (simp_all add: arrival_ok_def)
  from h have H: "fragments qp = map queued (filter ?in fs)"
    "meat qp = sum_list (map skb_len (filter ?in fs))"
    "len qp \<le> ?tot" "last fs \<in> set ys \<longrightarrow> len qp = ?tot"
    "flags qp = (if hd fs \<in> set ys then {INET_FRAG_FIRST_IN} else {})
                   \<union> (if last fs \<in> set ys then {INET_FRAG_LAST_IN} else {})"
    "ecn qp = fold (\<lambda>f u. u OR ip4_frag_ecn (tos f)) ys e0"
    "sizes_inv qp (map (\<lambda>f. (frag_df f, length (data f) + ihl f)) ys)"
    by (simp_all add: held_def)
  from held_gate [OF h oks(2), of orc] obtain n1 qp1 where
    far: "ip_frag_queue_far cfg orc n qp f = Inr (n1, qp1)"
    and q1: "qp1 = qp\<lparr>rid := rid qp1\<rparr>"
    and r1: "peer qp \<longrightarrow> sysctl_ipfrag_max_dist cfg \<noteq> 0 \<longrightarrow> rid qp1 = peer_rid n1"
    by blast
  note Q1 = ipq_rid_frame [OF q1]
  from f(1) obtain pre post where sp: "fs = pre @ f # post" by (auto dest: split_list)
  with dist have nf: "f \<notin> set pre" "f \<notin> set post" by auto
  define A where "A = map queued (filter ?in pre)"
  define B where "B = map queued (filter ?in post)"
  from sp f(2) have fil: "filter ?in fs = filter ?in pre @ filter ?in post" by simp
  have "filter ?in' pre = filter ?in pre" using nf(1) by (intro filter_cong) auto
  moreover have "filter ?in' post = filter ?in post" using nf(2) by (intro filter_cong) auto
  ultimately have fil': "filter ?in' fs = filter ?in pre @ f # filter ?in post"
    using sp by simp
  from H(1) fil Q1(1) have fr1: "fragments qp1 = A @ B" by (simp add: A_def B_def)
  from C(3) f(1) have df: "data f \<noteq> []" and wl: "wire_end f \<le> ?tot" by auto
  then have pos: "0 < skb_len f" by (simp add: skb_len_def)
  then have ow: "frag_offset f < wire_end f" by (simp add: wire_end_def)
  from C(4) sp have sepA: "\<forall>g \<in> set pre. wire_end g \<le> frag_offset f"
    and sepB: "\<forall>g \<in> set post. wire_end f \<le> frag_offset g"
    by (simp_all add: sorted_wrt_append)
  have posall: "\<forall>g \<in> set fs. 0 < skb_len g" using C(3) by (auto simp: skb_len_def)
  have Aend: "\<forall>a \<in> set A. frag_end a \<le> frag_offset f"
    using sepA by (auto simp: A_def)
  have Aoff: "\<forall>a \<in> set A. cb_offset a < frag_offset f"
  proof
    fix a assume "a \<in> set A"
    then obtain g where g: "g \<in> set pre" "a = queued g" by (auto simp: A_def)
    with sepA posall sp have "wire_end g \<le> frag_offset f" "0 < skb_len g" by auto
    with g(2) show "cb_offset a < frag_offset f" by (simp add: wire_end_def)
  qed
  have Boff: "\<forall>b \<in> set B. wire_end f \<le> cb_offset b"
    using sepB by (auto simp: B_def)
  with ow have Boff': "\<forall>b \<in> set B. frag_offset f \<le> cb_offset b" by fastforce
  have lastf: "frag_mf f \<longleftrightarrow> f \<noteq> last fs"
  proof
    assume "frag_mf f"
    with C(6) show "f \<noteq> last fs" by auto
  next
    assume nl: "f \<noteq> last fs"
    from C(1) have "fs = butlast fs @ [last fs]" by simp
    with f(1) nl have "f \<in> set (butlast fs)"
      by (metis Un_iff empty_iff empty_set set_ConsD set_append)
    with C(7) show "frag_mf f" by simp
  qed
  have m8: "frag_mf f \<Longrightarrow> wire_end f mod 8 = 0"
  proof -
    assume "frag_mf f"
    with lastf have nl: "f \<noteq> last fs" by simp
    from C(1) have "fs = butlast fs @ [last fs]" by simp
    with f(1) nl have "f \<in> set (butlast fs)"
      by (metis Un_iff empty_iff empty_set set_ConsD set_append)
    with C(7) show ?thesis by simp
  qed
  have hdf: "frag_offset f = 0 \<longleftrightarrow> f = hd fs"
  proof
    assume z: "frag_offset f = 0"
    show "f = hd fs"
    proof (cases pre)
      case Nil
      with sp show ?thesis by simp
    next
      case (Cons p ps)
      with sepA posall sp z have "wire_end p \<le> 0" "0 < skb_len p" by auto
      with frag_offset_ge0 [of p] show ?thesis by (simp add: wire_end_def)
    qed
  next
    assume "f = hd fs"
    with C(2) show "frag_offset f = 0" by simp
  qed
  let ?q = "qp1\<lparr>flags := (if frag_mf f then flags qp1
                              else insert INET_FRAG_LAST_IN (flags qp1)),
                    len := (if frag_mf f then max (len qp1) (wire_end f) else wire_end f)\<rparr>"
  have rng: "ip_frag_queue_range orc qp1 f = Inr (?q, f, frag_offset f, wire_end f)"
  proof (rule ip_frag_queue_range_whole [OF df oks(1)])
    assume mf: "frag_mf f"
    have "INET_FRAG_LAST_IN \<in> flags qp1 \<longrightarrow> wire_end f \<le> len qp1"
    proof
      assume "INET_FRAG_LAST_IN \<in> flags qp1"
      with Q1(4) H(5) have "last fs \<in> set ys" by (simp split: if_splits)
      with H(4) Q1(3) wl show "wire_end f \<le> len qp1" by simp
    qed
    with m8 [OF mf] show "wire_end f mod 8 = 0
           \<and> (INET_FRAG_LAST_IN \<in> flags qp1 \<longrightarrow> wire_end f \<le> len qp1)" by simp
  next
    assume "\<not> frag_mf f"
    with lastf have l: "f = last fs" by simp
    with C(5) have "wire_end f = ?tot" by simp
    moreover from l f(2) H(5) Q1(4) have "INET_FRAG_LAST_IN \<notin> flags qp1"
      by (simp split: if_splits)
    ultimately show "len qp1 \<le> wire_end f \<and> INET_FRAG_LAST_IN \<notin> flags qp1"
      using H(3) Q1(3) by simp
  qed
  have fnd: "ip_frag_queue_find (fragments ?q) (frag_offset f) = (A, B)"
    using ip_frag_queue_find_split [OF Aoff Boff'] fr1 by simp
  have prv: "ip_frag_queue_prev orc A f (frag_offset f) (wire_end f) = Inr (f, frag_offset f)"
  proof (rule ip_frag_queue_prev_clear)
    show "A = [] \<or> frag_end (last A) \<le> frag_offset f"
      using Aend by (cases "A = []") auto
  qed
  have nxt: "ip_frag_queue_next orc (wire_end f) B (meat ?q) = (None, B, meat ?q)"
    by (rule ip_frag_queue_next_clear [OF Boff])
  define qp2 where "qp2 = ip_frag_queue_link ?q A f (frag_offset f) B (meat ?q)"
  have ins: "ip_frag_queue_insert orc qp1 f
             = Inr (qp2, f, if A = [] then None else Some (last A))"
    by (simp only: ip_frag_queue_insert_def rng fnd prv nxt qp2_def sum.case prod.case
        option.case)
  have g1: "fragments qp2 = map queued (filter ?in' fs)"
    unfolding qp2_def ip_frag_queue_link_fields fil'
    by (simp add: A_def B_def queued_def)
  have g2: "meat qp2 = sum_list (map skb_len (filter ?in' fs))"
    unfolding qp2_def ip_frag_queue_link_fields fil'
    using H(2) Q1(2) fil by simp
  have len2: "len qp2 = (if frag_mf f then max (len qp) (wire_end f) else wire_end f)"
    unfolding qp2_def ip_frag_queue_link_fields using Q1(3) by simp
  have g3: "len qp2 \<le> ?tot" using len2 H(3) wl by (simp split: if_splits)
  have g4: "last fs \<in> set (ys @ [f]) \<longrightarrow> len qp2 = ?tot"
  proof
    assume "last fs \<in> set (ys @ [f])"
    then consider "last fs \<in> set ys" | "f = last fs" by auto
    then show "len qp2 = ?tot"
    proof cases
      case 1
      with H(4) have "len qp = ?tot" by simp
      moreover from 1 f(2) lastf have "frag_mf f" by auto
      ultimately show ?thesis using len2 wl by simp
    next
      case 2
      with lastf C(5) len2 show ?thesis by simp
    qed
  qed
  have g5: "flags qp2 = (if hd fs \<in> set (ys @ [f]) then {INET_FRAG_FIRST_IN} else {})
                   \<union> (if last fs \<in> set (ys @ [f]) then {INET_FRAG_LAST_IN} else {})"
    unfolding qp2_def ip_frag_queue_link_fields
    using H(5) Q1(4) lastf hdf by auto
  have g6: "ecn qp2 = fold (\<lambda>f u. u OR ip4_frag_ecn (tos f)) (ys @ [f]) e0"
    unfolding qp2_def ip_frag_queue_link_fields using H(6) Q1(8) by simp
  have g7: "sizes_inv qp2 (map (\<lambda>f. (frag_df f, length (data f) + ihl f)) (ys @ [f]))"
  proof -
    from H(7) have i: "sizes_inv ?q (map (\<lambda>f. (frag_df f, length (data f) + ihl f)) ys)"
      by (rule sizes_inv_frame) (simp_all add: Q1)
    from df have p: "0 < length (data f) + ihl f" by simp
    from wf f(1) have w: "length (data f) + ihl f \<le> 65535" by simp
    from sizes_inv_snoc [OF i p w, of qp2 "frag_df f"] show ?thesis
      unfolding qp2_def ip_frag_queue_link_max by simp
  qed
  have g8: "peer qp2 \<longrightarrow> sysctl_ipfrag_max_dist cfg \<noteq> 0 \<longrightarrow> ys @ [f] \<noteq> []
           \<longrightarrow> rid qp2 = peer_rid n1"
    unfolding qp2_def ip_frag_queue_link_fields using r1 Q1(5) by simp
  from g1 g2 g3 g4 g5 g6 g7 g8 have "held cfg fs e0 n1 qp2 (ys @ [f])"
    unfolding held_def by blast
  moreover from g5 have "INET_FRAG_COMPLETE \<notin> flags qp2" by (simp split: if_splits)
  ultimately show ?thesis using far ins by blast
qed

lemma held_glue:
  assumes v: "valid_frags cfg fs" and e0: "\<exists>g \<in> set fs. e0 = ip4_frag_ecn (tos g)"
    and h: "held cfg fs e0 n qp ys" and all: "set ys = set fs"
    and ok: "clone_ok orc" "unclone_ok orc" "alloc_ok orc"
  shows "flags qp = {INET_FRAG_FIRST_IN, INET_FRAG_LAST_IN}" and "meat qp = len qp"
    and "len qp = sum_list (map skb_len fs)" and "ecn qp = ecn_union fs"
    and "\<exists>n' qp'. ip_frag_reasm cfg orc n qp prev dv
           = (Inr (reasm_datagram cfg qp (queued (hd fs)) (map queued (tl fs)) dv), n', qp')"
proof -
  from v have chain: "frag_chain 0 fs"
    and tab: "ip_frag_ecn_table cfg (ecn_union fs) \<noteq> 0xff"
    and big: "int (ihl (hd fs)) + sum_list (map skb_len fs) \<le> 65535"
    by (simp_all add: valid_frags_def)
  note C = frag_chain_props [OF chain]
  from C(1) have hl: "hd fs \<in> set fs" "last fs \<in> set fs" by simp_all
  from all have fil: "filter (\<lambda>f. f \<in> set ys) fs = fs" by simp
  from h fil all hl have H: "fragments qp = map queued fs"
    "meat qp = sum_list (map skb_len fs)" "len qp = sum_list (map skb_len fs)"
    "flags qp = {INET_FRAG_FIRST_IN} \<union> {INET_FRAG_LAST_IN}"
    "ecn qp = fold (\<lambda>f u. u OR ip4_frag_ecn (tos f)) ys e0"
    by (simp_all add: held_def)
  from H(4) show "flags qp = {INET_FRAG_FIRST_IN, INET_FRAG_LAST_IN}" by auto
  from H(2,3) show "meat qp = len qp" by simp
  from H(3) show "len qp = sum_list (map skb_len fs)" .
  show ec: "ecn qp = ecn_union fs"
  proof (rule bit_eqI)
    fix k
    from e0 obtain g where g: "g \<in> set fs" "e0 = ip4_frag_ecn (tos g)" by blast
    then show "bit (ecn qp) k \<longleftrightarrow> bit (ecn_union fs) k"
      unfolding H(5) ecn_union_def bit_fold_or all by auto
  qed
  from C(1) have fr: "fragments qp = queued (hd fs) # map queued (tl fs)"
    unfolding H(1) by (cases fs) simp_all
  show "\<exists>n' qp'. ip_frag_reasm cfg orc n qp prev dv
           = (Inr (reasm_datagram cfg qp (queued (hd fs)) (map queued (tl fs)) dv), n', qp')"
  proof (cases rule: ip_frag_reasm_cases
      [where cfg = cfg and orc = orc and n = n and qp = qp and prev = prev and dv = dv])
    case ecn_err
    with tab ec show ?thesis by simp
  next
    case clone_err
    with ok show ?thesis by simp
  next
    case empty
    with fr show ?thesis by simp
  next
    case (oversize head rest)
    with fr big H(3) show ?thesis by simp
  next
    case (unclone_err head rest)
    with ok show ?thesis by simp
  next
    case (alloc_err head rest)
    with ok show ?thesis by simp
  next
    case (glued head rest)
    with fr show ?thesis by simp
  qed
qed

lemma held_run:
  assumes v: "valid_frags cfg fs" and e0: "\<exists>g \<in> set fs. e0 = ip4_frag_ecn (tos g)"
    and h: "held cfg fs e0 n qp ys"
    and d: "distinct (ys @ map snd steps)" and all: "set (ys @ map snd steps) = set fs"
    and ok: "\<forall>st \<in> set steps. arrival_ok st" and ne: "steps \<noteq> []"
  shows "\<exists>qf zs. map ret (ip_defrag_list cfg n qp steps)
             = replicate (length steps - 1) (Inl EINPROGRESS)
               @ [Inr (reasm_datagram cfg qf (queued (hd fs)) (map queued (tl fs))
                         (dev (snd (last steps))))]
           \<and> len qf = sum_list (map skb_len fs) \<and> ecn qf = ecn_union fs
           \<and> set zs = set fs
           \<and> sizes_inv qf (map (\<lambda>f. (frag_df f, length (data f) + ihl f)) zs)"
  using h d all ok ne
proof (induction steps arbitrary: n qp ys)
  case Nil
  then show ?case by simp
next
  case (Cons st steps)
  obtain orc f where st: "st = (orc, f)" by (cases st)
  from v have chain: "frag_chain 0 fs"
    and wf: "\<forall>f \<in> set fs. length (data f) + ihl f \<le> 65535"
    by (simp_all add: valid_frags_def)
  note C = frag_chain_props [OF chain]
  from Cons.prems(2,3) st have f: "f \<in> set fs" "f \<notin> set ys" by auto
  from Cons.prems(4) st have aok: "arrival_ok (orc, f)" by simp
  then have oks: "rid_others orc = 0" "clone_ok orc" "unclone_ok orc" "alloc_ok orc"
    by (simp_all add: arrival_ok_def)
  from held_step [OF chain wf Cons.prems(1) f aok] obtain n1 qp1 qp2 prev where
    far: "ip_frag_queue_far cfg orc n qp f = Inr (n1, qp1)"
    and ins: "ip_frag_queue_insert orc qp1 f = Inr (qp2, f, prev)"
    and h2: "held cfg fs e0 n1 qp2 (ys @ [f])"
    by blast
  have n0: "n\<lparr>peer_rid := peer_rid n + rid_others orc\<rparr> = n" using oks(1) by simp
  show ?case
  proof (cases "steps = []")
    case True
    with Cons.prems(3) st have all2: "set (ys @ [f]) = set fs" by simp
    note G = held_glue [OF v e0 h2 all2 oks(2,3,4)]
    from G(5) [of prev "dev f"] obtain n3 qp3 where
      re: "ip_frag_reasm cfg orc n1 qp2 prev (dev f)
           = (Inr (reasm_datagram cfg qp2 (queued (hd fs)) (map queued (tl fs)) (dev f)), n3, qp3)"
      by blast
    have q: "ip_frag_queue cfg orc n qp f
             = \<lparr>ret = Inr (reasm_datagram cfg qp2 (queued (hd fs)) (map queued (tl fs)) (dev f)),
                skb_freed = False, net_out = n3, qp_out = qp3\<rparr>"
      by (simp add: ip_frag_queue_def far ins G(1,2) re)
    from h2 have sz: "sizes_inv qp2 (map (\<lambda>f. (frag_df f, length (data f) + ihl f)) (ys @ [f]))"
      by (simp add: held_def)
    have "map ret (ip_defrag_list cfg n qp (st # steps))
          = replicate (length (st # steps) - 1) (Inl EINPROGRESS)
            @ [Inr (reasm_datagram cfg qp2 (queued (hd fs)) (map queued (tl fs))
                      (dev (snd (last (st # steps)))))]"
      by (simp add: st True n0 q)
    with G(3,4) all2 sz show ?thesis by blast
  next
    case False
    then obtain g where g: "g \<in> set (map snd steps)" by (cases steps) auto
    with Cons.prems(2,3) st have gf: "g \<in> set fs" "g \<notin> set (ys @ [f])" by auto
    have posall: "\<forall>x \<in> set fs. 0 < skb_len x" using C(3) by (auto simp: skb_len_def)
    from h2 have H: "meat qp2 = sum_list (map skb_len (filter (\<lambda>x. x \<in> set (ys @ [f])) fs))"
      "len qp2 \<le> sum_list (map skb_len fs)"
      "last fs \<in> set (ys @ [f]) \<longrightarrow> len qp2 = sum_list (map skb_len fs)"
      "flags qp2 = (if hd fs \<in> set (ys @ [f]) then {INET_FRAG_FIRST_IN} else {})
                   \<union> (if last fs \<in> set (ys @ [f]) then {INET_FRAG_LAST_IN} else {})"
      by (simp_all add: held_def)
    have lt: "meat qp2 < sum_list (map skb_len fs)"
      unfolding H(1)
      using posall gf
      by (rule sum_list_filter_less [where P = "\<lambda>x. x \<in> set (ys @ [f])" and g = g])
    have nt: "\<not> (flags qp2 = {INET_FRAG_FIRST_IN, INET_FRAG_LAST_IN} \<and> meat qp2 = len qp2)"
    proof
      assume a: "flags qp2 = {INET_FRAG_FIRST_IN, INET_FRAG_LAST_IN} \<and> meat qp2 = len qp2"
      with H(4) have "last fs \<in> set (ys @ [f])" by (auto split: if_splits)
      with H(3) a lt show False by simp
    qed
    have q: "ip_frag_queue cfg orc n qp f
             = \<lparr>ret = Inl EINPROGRESS, skb_freed = False, net_out = n1, qp_out = qp2\<rparr>"
      by (simp only: ip_frag_queue_def far ins sum.case prod.case if_not_P [OF nt])
    from Cons.prems(2) st have d2: "distinct ((ys @ [f]) @ map snd steps)" by simp
    from Cons.prems(3) st have a2: "set ((ys @ [f]) @ map snd steps) = set fs" by simp
    from Cons.prems(4) have ok2: "\<forall>st \<in> set steps. arrival_ok st" by simp
    from Cons.IH [OF h2 d2 a2 ok2 False] obtain qf zs where
      ih: "map ret (ip_defrag_list cfg n1 qp2 steps)
             = replicate (length steps - 1) (Inl EINPROGRESS)
               @ [Inr (reasm_datagram cfg qf (queued (hd fs)) (map queued (tl fs))
                         (dev (snd (last steps))))]"
      and rest: "len qf = sum_list (map skb_len fs)" "ecn qf = ecn_union fs"
        "set zs = set fs"
        "sizes_inv qf (map (\<lambda>f. (frag_df f, length (data f) + ihl f)) zs)"
      by blast
    from False have rp: "replicate (length (st # steps) - 1) (Inl EINPROGRESS)
          = Inl EINPROGRESS # replicate (length steps - 1) (Inl EINPROGRESS :: errno + sk_buff)"
      by (cases steps) simp_all
    have "map ret (ip_defrag_list cfg n qp (st # steps))
          = replicate (length (st # steps) - 1) (Inl EINPROGRESS)
               @ [Inr (reasm_datagram cfg qf (queued (hd fs)) (map queued (tl fs))
                         (dev (snd (last (st # steps)))))]"
      unfolding rp using False by (simp add: st n0 q ih)
    with rest show ?thesis by blast
  qed
qed

lemma reasm_datagram_dev:
  assumes "len q = len q'" and "ecn q = ecn q'" and "max_size q = max_size q'"
    and "max_df_size q = max_df_size q'"
  shows "reasm_datagram cfg q' h r dv' = (reasm_datagram cfg q h r dv)\<lparr>dev := dv'\<rparr>"
  using assms by (simp add: reasm_datagram_def)

lemma reasm_datagram_data:
  assumes "fs \<noteq> []"
  shows "data (reasm_datagram cfg q (queued (hd fs)) (map queued (tl fs)) dv)
         = concat (map data fs)"
proof -
  from assms obtain a as where "fs = a # as" by (cases fs) auto
  then show ?thesis by (simp add: reasm_datagram_def o_def)
qed

lemma sizes_inv_set:
  assumes "sizes_inv q (map sz zs)" and "sizes_inv q' (map sz zs')" and "set zs = set zs'"
  shows "max_size q = max_size q'" and "max_df_size q = max_df_size q'"
proof -
  from assms(3) have "set (map sz zs) = set (map sz zs')" by simp
  with assms(1,2) show "max_size q = max_size q'" and "max_df_size q = max_df_size q'"
    unfolding sizes_inv_def by simp_all
qed

lemma held_init:
  assumes "frag_chain 0 fs"
  shows "held cfg fs (ip4_frag_ecn (tos s)) n (ip4_frag_init cfg gp s) []"
proof -
  from frag_chain_props(1,3) [OF assms] obtain g where "g \<in> set fs"
    and "wire_end g \<le> 0 + sum_list (map skb_len fs)" and "0 \<le> frag_offset g"
    by (cases fs) auto
  with skb_len_ge0 [of g] have "0 \<le> sum_list (map skb_len fs)"
    by (simp add: wire_end_def)
  then show ?thesis by (simp add: held_def ip4_frag_init_def sizes_inv_def)
qed

lemma fresh_run:
  assumes v: "valid_frags cfg fs" and m: "mset (map snd steps) = mset fs"
    and ok: "\<forall>st \<in> set steps. arrival_ok st"
  shows "\<exists>qf zs. map ret (ip_defrag_list cfg n (ip4_frag_init cfg gp (snd (hd steps))) steps)
             = replicate (length fs - 1) (Inl EINPROGRESS)
               @ [Inr (reasm_datagram cfg qf (queued (hd fs)) (map queued (tl fs))
                         (dev (snd (last steps))))]
           \<and> len qf = sum_list (map skb_len fs) \<and> ecn qf = ecn_union fs
           \<and> set zs = set fs
           \<and> sizes_inv qf (map (\<lambda>f. (frag_df f, length (data f) + ihl f)) zs)"
proof -
  from v have chain: "frag_chain 0 fs" by (simp add: valid_frags_def)
  note ne = frag_chain_props(1) [OF chain]
  from m have st: "set (map snd steps) = set fs" by (rule mset_eq_setD)
  from m have "length (map snd steps) = length fs" by (rule mset_eq_length)
  then have ln: "length steps = length fs" by simp
  from frag_chain_distinct [OF chain] m have d: "distinct (map snd steps)"
    by (metis distinct_count_atmost_1 set_mset_mset)
  from ne ln have sne: "steps \<noteq> []" by auto
  then have "snd (hd steps) \<in> set (map snd steps)" by (cases steps) auto
  with st have e0: "\<exists>g \<in> set fs. ip4_frag_ecn (tos (snd (hd steps))) = ip4_frag_ecn (tos g)"
    by blast
  from d have d': "distinct ([] @ map snd steps)" by simp
  from st have st': "set ([] @ map snd steps) = set fs" by simp
  from held_run [OF v e0 held_init [OF chain] d' st' ok sne, of n gp]
  show ?thesis unfolding ln .
qed

text \<open>
  C1. When the fragments of a valid set arrive in any order at a queue created by the first
  of them, every call but the last answers \<open>-EINPROGRESS\<close> and the last returns the
  datagram, whose body is the concatenation of the payloads in offset order. Two orders
  of arrival give the same datagram; only \<^verbatim>\<open>skb->dev\<close>, the device of the buffer that
  arrived last, follows the order. No allocation fails, no buffer carries
  \<^verbatim>\<open>IPSKB_FRAG_COMPLETE\<close> and no other queue of the peer advances its counter meanwhile.
\<close>

theorem reassembly_order_independent:
  assumes "valid_frags cfg fs"
    and "mset (map snd steps) = mset fs" and "\<forall>st \<in> set steps. arrival_ok st"
    and "mset (map snd steps') = mset fs" and "\<forall>st \<in> set steps'. arrival_ok st"
  shows "\<exists>d d'.
           map ret (ip_defrag_list cfg n (ip4_frag_init cfg gp (snd (hd steps))) steps)
             = replicate (length fs - 1) (Inl EINPROGRESS) @ [Inr d]
         \<and> map ret (ip_defrag_list cfg n' (ip4_frag_init cfg gp' (snd (hd steps'))) steps')
             = replicate (length fs - 1) (Inl EINPROGRESS) @ [Inr d']
         \<and> data d = concat (map data fs)
         \<and> d' = d\<lparr>dev := dev (snd (last steps'))\<rparr>"
proof -
  from assms(1) have chain: "frag_chain 0 fs" by (simp add: valid_frags_def)
  note ne = frag_chain_props(1) [OF chain]
  let ?sz = "\<lambda>f. (frag_df f, length (data f) + ihl f)"
  from fresh_run [OF assms(1,2,3), of n gp] obtain qf zs where
    r: "map ret (ip_defrag_list cfg n (ip4_frag_init cfg gp (snd (hd steps))) steps)
             = replicate (length fs - 1) (Inl EINPROGRESS)
               @ [Inr (reasm_datagram cfg qf (queued (hd fs)) (map queued (tl fs))
                         (dev (snd (last steps))))]"
    and q: "len qf = sum_list (map skb_len fs)" "ecn qf = ecn_union fs"
      "set zs = set fs" "sizes_inv qf (map ?sz zs)"
    by blast
  from fresh_run [OF assms(1,4,5), of n' gp'] obtain qf' zs' where
    r': "map ret (ip_defrag_list cfg n' (ip4_frag_init cfg gp' (snd (hd steps'))) steps')
             = replicate (length fs - 1) (Inl EINPROGRESS)
               @ [Inr (reasm_datagram cfg qf' (queued (hd fs)) (map queued (tl fs))
                         (dev (snd (last steps'))))]"
    and q': "len qf' = sum_list (map skb_len fs)" "ecn qf' = ecn_union fs"
      "set zs' = set fs" "sizes_inv qf' (map ?sz zs')"
    by blast
  from q(3) q'(3) have "set zs = set zs'" by simp
  note mx = sizes_inv_set [OF q(4) q'(4) this]
  from q(1,2) q'(1,2) have "len qf = len qf'" "ecn qf = ecn qf'" by simp_all
  note dv = reasm_datagram_dev [OF this mx]
  from r r' dv reasm_datagram_data [OF ne] show ?thesis by blast
qed

theorem reassembly_order_independent_witness:
  "\<exists>d d'.
      map ret (ip_defrag_list cfg64 net0 (ip4_frag_init cfg64 True frag_0_8)
                 [(env_ok, frag_0_8), (env_ok, frag_8_16)])
        = [Inl EINPROGRESS, Inr d]
    \<and> map ret (ip_defrag_list cfg64 net0 (ip4_frag_init cfg64 True frag_8_16)
                 [(env_ok, frag_8_16), (env_ok, frag_0_8)])
        = [Inl EINPROGRESS, Inr d']
    \<and> data d = [1, 2, 3, 4, 5, 6, 7, 8, 9, 10, 11, 12, 13, 14, 15, 16]
    \<and> d' = d\<lparr>dev := Some 1\<rparr>"
proof -
  have v: "valid_frags cfg64 [frag_0_8, frag_8_16]"
    by (simp add: valid_frags_def wire_end_def ecn_union_def model_defs example_defs)
  have ok: "arrival_ok (env_ok, frag_0_8)" "arrival_ok (env_ok, frag_8_16)"
    by (simp_all add: arrival_ok_def example_defs)
  have d: "data frag_0_8 = [1, 2, 3, 4, 5, 6, 7, 8]"
    "data frag_8_16 = [9, 10, 11, 12, 13, 14, 15, 16]" "dev frag_0_8 = Some 1"
    by (simp_all add: example_defs)
  from reassembly_order_independent
    [of cfg64 "[frag_0_8, frag_8_16]" "[(env_ok, frag_0_8), (env_ok, frag_8_16)]"
        "[(env_ok, frag_8_16), (env_ok, frag_0_8)]" net0 True net0 True]
  show ?thesis using v ok d by simp
qed

end
